theory Spec2Isabelle
  imports Main
begin

section \<open>JavaScript strings and values\<close>

text \<open>
  A JavaScript string is the list of its UTF-16 code units, each a natural number.
  \<open>js\<close> embeds an ASCII literal. \<open>length\<close> is the \<open>.length\<close> of the source.
\<close>

type_synonym jsstring = "nat list"

definition js :: "string \<Rightarrow> jsstring" where
  "js s = map of_char s"

text \<open>
  The code units that \<open>\s\<close> in a regular expression and \<open>String.prototype.trim\<close>
  treat as white space (WhiteSpace and LineTerminator of ECMAScript): TAB, LF, VT, FF, CR,
  SP, NBSP, U+1680, U+2000 to U+200A, U+2028, U+2029, U+202F, U+205F, U+3000, U+FEFF.
\<close>

definition is_space :: "nat \<Rightarrow> bool" where
  "is_space c \<longleftrightarrow>
     (9 \<le> c \<and> c \<le> 13) \<or> c = 32 \<or> c = 160 \<or> c = 5760 \<or> (8192 \<le> c \<and> c \<le> 8202) \<or>
     c = 8232 \<or> c = 8233 \<or> c = 8239 \<or> c = 8287 \<or> c = 12288 \<or> c = 65279"

definition trim :: "jsstring \<Rightarrow> jsstring" where
  "trim s = rev (dropWhile is_space (rev (dropWhile is_space s)))"

text \<open>\<open>a || b\<close> on strings: the empty string is falsy.\<close>

definition str_or :: "jsstring \<Rightarrow> jsstring \<Rightarrow> jsstring" where
  "str_or a b = (if a = [] then b else a)"

text \<open>
  The values that serve as identifiers: a number or a string. Two of them are the same key
  of a \<open>Map\<close> exactly when they are equal here: the number 5 and the string "5" differ.
\<close>

datatype jsval = JNum int | JStr jsstring

fun truthy :: "jsval \<Rightarrow> bool" where
  "truthy (JNum n) = (n \<noteq> 0)"
| "truthy (JStr s) = (s \<noteq> [])"

section \<open>Regular expressions of the deny-list\<close>

text \<open>
  The fragment of JavaScript regular expressions that \<open>FORBIDDEN_PATTERNS\<close> uses: a literal
  character, \<open>\s\<close>, \<open>\s*\<close>, \<open>\s+\<close>, the assertions \<open>^\<close> and \<open>$\<close> (no \<open>m\<close> flag:
  start and end of the input), the empty group \<open>()\<close>, sequence and alternation.
\<close>

datatype rx =
    Lit nat
  | Space
  | SpaceStar
  | SpacePlus
  | Bol
  | Eol
  | Eps
  | Seq rx rx
  | Alt rx rx

record regex =
  body :: rx
  ignoreCase :: bool

text \<open>
  Under the \<open>i\<close> flag two code units match when their canonical forms agree. Every literal
  of the deny-list is ASCII, and no code unit above 127 has an ASCII canonical form, so the
  canonical form is needed on ASCII letters only.
\<close>

definition canon :: "nat \<Rightarrow> nat" where
  "canon c = (if 97 \<le> c \<and> c \<le> 122 then c - 32 else c)"

definition char_eq :: "bool \<Rightarrow> nat \<Rightarrow> nat \<Rightarrow> bool" where
  "char_eq ic p x = (if ic then canon p = canon x else p = x)"

text \<open>
  A position is the rest of the input, with a flag telling whether it is the start of the
  input. The matcher returns every position at which a match of the expression, begun at the
  given position, can end.
\<close>

type_synonym pos = "bool \<times> jsstring"

fun spaces_from :: "pos \<Rightarrow> pos list" where
  "spaces_from (b, []) = [(b, [])]"
| "spaces_from (b, x # xs) =
     (b, x # xs) # (if is_space x then spaces_from (False, xs) else [])"

fun rx_ends :: "bool \<Rightarrow> rx \<Rightarrow> pos \<Rightarrow> pos list" where
  "rx_ends ic (Lit c) (b, s) =
     (case s of [] \<Rightarrow> [] | x # xs \<Rightarrow> if char_eq ic c x then [(False, xs)] else [])"
| "rx_ends ic Space (b, s) =
     (case s of [] \<Rightarrow> [] | x # xs \<Rightarrow> if is_space x then [(False, xs)] else [])"
| "rx_ends ic SpaceStar p = spaces_from p"
| "rx_ends ic SpacePlus (b, s) =
     (case s of [] \<Rightarrow> [] | x # xs \<Rightarrow> if is_space x then spaces_from (False, xs) else [])"
| "rx_ends ic Bol (b, s) = (if b then [(b, s)] else [])"
| "rx_ends ic Eol (b, s) = (if s = [] then [(b, s)] else [])"
| "rx_ends ic Eps p = [p]"
| "rx_ends ic (Seq r1 r2) p = concat (map (rx_ends ic r2) (rx_ends ic r1 p))"
| "rx_ends ic (Alt r1 r2) p = rx_ends ic r1 p @ rx_ends ic r2 p"

text \<open>Every position of the input at which a match may begin, the end included.\<close>

fun later_starts :: "jsstring \<Rightarrow> pos list" where
  "later_starts [] = []"
| "later_starts (x # xs) = (False, xs) # later_starts xs"

definition starts :: "jsstring \<Rightarrow> pos list" where
  "starts s = (True, s) # later_starts s"

text \<open>\<open>re.test(s)\<close> for an expression without the \<open>g\<close> and \<open>y\<close> flags: some match exists.\<close>

definition re_test :: "regex \<Rightarrow> jsstring \<Rightarrow> bool" where
  "re_test re s = list_ex (\<lambda>p. rx_ends (ignoreCase re) (body re) p \<noteq> []) (starts s)"

text \<open>A sequence of literal characters.\<close>

fun lits :: "jsstring \<Rightarrow> rx" where
  "lits [] = Eps"
| "lits [c] = Lit c"
| "lits (c # cs) = Seq (Lit c) (lits cs)"

fun seqs :: "rx list \<Rightarrow> rx" where
  "seqs [] = Eps"
| "seqs [r] = r"
| "seqs (r # rs) = Seq r (seqs rs)"

section \<open>Command Safety Gate\<close>

text \<open>
  The six expressions of \<open>FORBIDDEN_PATTERNS\<close>, in the order of the source:
  \<^verbatim>\<open>/(^|\s)sudo(\s|$)/i\<close>, \<^verbatim>\<open>/rm\s+-rf/i\<close>,
  \<^verbatim>\<open>/:\s*\(\)\s*{\s*:\s*\|\s*:\s*;\s*}/\<close>, \<^verbatim>\<open>/dd\s+if=/i\<close>, \<^verbatim>\<open>/mkfs\./i\<close> and
  \<^verbatim>\<open>/:(){:|:&};:/\<close>. In the last one nothing is escaped: \<open>()\<close> is an empty group, the
  braces are literal (they form no quantifier) and \<open>|\<close> is a top-level alternation, so it
  reads \<open>:(){:\<close> or \<open>:&};:\<close>.
\<close>

definition re_sudo :: regex where
  "re_sudo = \<lparr>body = seqs [Alt Bol Space, lits (js ''sudo''), Alt Space Eol], ignoreCase = True\<rparr>"

definition re_rm :: regex where
  "re_rm = \<lparr>body = seqs [lits (js ''rm''), SpacePlus, lits (js ''-rf'')], ignoreCase = True\<rparr>"

definition re_fork1 :: regex where
  "re_fork1 = \<lparr>body = seqs [Lit 58, SpaceStar, Lit 40, Lit 41, SpaceStar, Lit 123, SpaceStar,
       Lit 58, SpaceStar, Lit 124, SpaceStar, Lit 58, SpaceStar, Lit 59, SpaceStar, Lit 125],
     ignoreCase = False\<rparr>"

definition re_dd :: regex where
  "re_dd = \<lparr>body = seqs [lits (js ''dd''), SpacePlus, lits (js ''if='')], ignoreCase = True\<rparr>"

definition re_mkfs :: regex where
  "re_mkfs = \<lparr>body = lits (js ''mkfs.''), ignoreCase = True\<rparr>"

definition re_fork2 :: regex where
  "re_fork2 = \<lparr>body = Alt (seqs [Lit 58, Eps, Lit 123, Lit 58])
                          (seqs [Lit 58, Lit 38, Lit 125, Lit 59, Lit 58]),
     ignoreCase = False\<rparr>"

definition FORBIDDEN_PATTERNS :: "regex list" where
  "FORBIDDEN_PATTERNS = [re_sudo, re_rm, re_fork1, re_dd, re_mkfs, re_fork2]"

text \<open>The loop of \<open>isForbidden\<close>: the first expression that matches returns true.\<close>

fun any_test :: "regex list \<Rightarrow> jsstring \<Rightarrow> bool" where
  "any_test [] command = False"
| "any_test (re # res) command = (if re_test re command then True else any_test res command)"

definition isForbidden :: "jsstring \<Rightarrow> bool" where
  "isForbidden command = (if command = [] then False else any_test FORBIDDEN_PATTERNS command)"

section \<open>Data model\<close>

datatype job_status = Active | Paused

record job =
  jid :: jsval
  name :: jsstring
  command :: jsstring
  schedule :: jsstring
  status :: job_status

datatype rstatus = Queued | Running | Success | Error

text \<open>A row of \<open>job_runs\<close>; times are milliseconds, \<open>None\<close> is SQL \<open>NULL\<close>.\<close>

record job_run =
  run_id :: jsval
  job_id :: jsval
  run_status :: rstatus
  started_at :: "int option"
  finished_at :: "int option"
  run_output :: "jsstring option"

text \<open>
  The state: the two tables of the store, the module-level map \<open>scheduledJobs\<close> from a job
  id to the handle of its task, the tasks of node-cron that are live (created by
  \<open>cron.schedule\<close> and not stopped), each with the job its callback closes over, the next
  unused handle, and the clock.
\<close>

record world =
  jobs :: "job list"
  job_runs :: "job_run list"
  scheduledJobs :: "jsval \<rightharpoonup> nat"
  triggers :: "nat \<rightharpoonup> job"
  next_task :: nat
  clock :: int

text \<open>
  What the process reads from outside the source: the flag \<open>VERBOSE_LOGS\<close>, the syntax
  check \<open>cron.validate\<close> of node-cron, and how the store compares the \<open>id\<close> column of
  \<open>jobs\<close> with the text of a route parameter (the schema is not part of the source).
\<close>

record config =
  VERBOSE :: bool
  cron_validate :: "jsstring \<Rightarrow> bool"
  id_matches :: "jsval \<Rightarrow> jsstring \<Rightarrow> bool"

text \<open>
  What a call does besides changing the state: the statements it sends to the store (sent
  whether or not they succeed), the processes it spawns and the lines it logs through the
  helpers \<open>log\<close>, \<open>info\<close>, \<open>warn\<close>, \<open>error\<close> (the text of a line is not kept).
\<close>

datatype level = LOG | INFO | WARN | ERROR

datatype query =
    InsertRun jsval rstatus
  | UpdateRun rstatus jsstring int jsval
  | UpdateRunNow rstatus jsstring jsval
  | CountRuns
  | DeleteOldRuns
  | SelectJobs
  | InsertJob jsstring jsstring jsstring job_status
  | SelectJob jsstring
  | UpdateJobStatus job_status jsstring
  | DeleteJob jsstring

datatype event = Logged level | Sent query | Exec jsstring nat

record result =
  final :: world
  events :: "event list"
  threw :: bool

text \<open>\<open>log\<close> prints only when \<open>VERBOSE\<close>.\<close>

definition vlog :: "config \<Rightarrow> event list" where
  "vlog cfg = (if VERBOSE cfg then [Logged LOG] else [])"

section \<open>The store\<close>

text \<open>
  Modelled from the spec: the schema of the store (\<open>db.js\<close> and the table definitions) is
  not part of the source; the spec gives each table an identifier that is unique and assigned
  by the store, and a nullable \<open>finished_at\<close>. The definitions below are the SQL statements
  that the source sends, one for each. A statement either rejects (the flag \<open>fails\<close>, or a
  second row with the same identifier) and leaves the tables as they are, giving \<open>None\<close>,
  or takes effect on the rows its \<open>WHERE\<close> clause selects. The identifier of a new row is
  given by the caller of the model, as the store's choice.
\<close>

definition insert_run :: "bool \<Rightarrow> jsval \<Rightarrow> jsval \<Rightarrow> world \<Rightarrow> world option" where
  "insert_run fails rid j w =
     (if fails \<or> rid \<in> run_id ` set (job_runs w) then None
      else Some (w\<lparr>job_runs := job_runs w @
        [\<lparr>run_id = rid, job_id = j, run_status = Running, started_at = Some (clock w),
          finished_at = None, run_output = None\<rparr>]\<rparr>))"

definition update_run ::
  "bool \<Rightarrow> rstatus \<Rightarrow> jsstring \<Rightarrow> int \<Rightarrow> jsval \<Rightarrow> world \<Rightarrow> world option" where
  "update_run fails st out fin rid w =
     (if fails then None
      else Some (w\<lparr>job_runs := map (\<lambda>r. if run_id r = rid
          then r\<lparr>run_status := st, run_output := Some out, finished_at := Some fin\<rparr> else r)
        (job_runs w)\<rparr>))"

definition thirty_days :: int where
  "thirty_days = 30 * 24 * 60 * 60 * 1000"

text \<open>\<open>finished_at < NOW() - INTERVAL '30 days'\<close>: a comparison with \<open>NULL\<close> is not true.\<close>

definition is_old :: "int \<Rightarrow> job_run \<Rightarrow> bool" where
  "is_old now r = (case finished_at r of None \<Rightarrow> False | Some t \<Rightarrow> t < now - thirty_days)"

definition delete_old_runs :: "bool \<Rightarrow> world \<Rightarrow> (nat \<times> world) option" where
  "delete_old_runs fails w =
     (if fails then None
      else Some (length (filter (is_old (clock w)) (job_runs w)),
                 w\<lparr>job_runs := filter (\<lambda>r. \<not> is_old (clock w) r) (job_runs w)\<rparr>))"

definition insert_job ::
  "bool \<Rightarrow> jsval \<Rightarrow> jsstring \<Rightarrow> jsstring \<Rightarrow> jsstring \<Rightarrow> world \<Rightarrow> (job \<times> world) option" where
  "insert_job fails newid nm cmd sch w =
     (if fails \<or> newid \<in> jid ` set (jobs w) then None
      else let row = \<lparr>jid = newid, name = nm, command = cmd, schedule = sch, status = Active\<rparr>
           in Some (row, w\<lparr>jobs := jobs w @ [row]\<rparr>))"

definition select_job :: "config \<Rightarrow> bool \<Rightarrow> jsstring \<Rightarrow> world \<Rightarrow> job option option" where
  "select_job cfg fails p w =
     (if fails then None else Some (find (\<lambda>j. id_matches cfg (jid j) p) (jobs w)))"

definition update_job_status ::
  "config \<Rightarrow> bool \<Rightarrow> job_status \<Rightarrow> jsstring \<Rightarrow> world \<Rightarrow> world option" where
  "update_job_status cfg fails st p w =
     (if fails then None
      else Some (w\<lparr>jobs := map (\<lambda>j. if id_matches cfg (jid j) p then j\<lparr>status := st\<rparr> else j)
        (jobs w)\<rparr>))"

definition delete_job :: "config \<Rightarrow> bool \<Rightarrow> jsstring \<Rightarrow> world \<Rightarrow> world option" where
  "delete_job cfg fails p w =
     (if fails then None
      else Some (w\<lparr>jobs := filter (\<lambda>j. \<not> id_matches cfg (jid j) p) (jobs w)\<rparr>))"

section \<open>Execution Engine: \<open>runJob\<close>\<close>

text \<open>
  What \<open>exec\<close> of \<open>child_process\<close> does with the command: it throws before any process
  exists, or it spawns the process and later calls back with \<open>err\<close> (\<open>null\<close>, or an error
  with a message: a non-zero exit, a failed spawn, or the kill at the 60 second timeout, all
  reported alike), the captured \<open>stdout\<close> and \<open>stderr\<close>, after some milliseconds.
\<close>

datatype exec_outcome =
    ExecThrows jsstring
  | ExecDone "jsstring option" jsstring jsstring nat

text \<open>What one invocation of \<open>runJob\<close> meets: the fate of each statement and of \<open>exec\<close>.\<close>

record run_env =
  insert_fails :: bool
  new_run_id :: jsval
  exec_out :: exec_outcome
  update_fails :: bool
  catch_update_fails :: bool

text \<open>
  The callback given to \<open>exec\<close>. It returns the state and the events; the caller then
  rejects the promise with \<open>err\<close> or resolves it.
\<close>

definition exec_callback ::
  "config \<Rightarrow> run_env \<Rightarrow> jsval \<Rightarrow> jsstring option \<Rightarrow> jsstring \<Rightarrow> jsstring \<Rightarrow> world
     \<Rightarrow> world \<times> event list" where
  "exec_callback cfg env runId err stdout stderr w =
     (let out = str_or stdout [] @ str_or stderr [];
          st = (if err \<noteq> None then Error else Success);
          fin = clock w;
          q = UpdateRun st (str_or (trim out) (js ''(no output)'')) fin runId
      in case update_run (update_fails env) st (str_or (trim out) (js ''(no output)'')) fin runId w of
           Some w' \<Rightarrow> (w', [Sent q, Logged INFO] @ vlog cfg @ vlog cfg @ vlog cfg)
         | None \<Rightarrow> (w, [Sent q, Logged ERROR]))"

text \<open>The \<open>catch\<close> block of \<open>runJob\<close>; \<open>runId\<close> is \<open>None\<close> while still undefined.\<close>

definition run_catch ::
  "config \<Rightarrow> run_env \<Rightarrow> jsstring \<Rightarrow> jsval option \<Rightarrow> world \<Rightarrow> event list \<Rightarrow> result" where
  "run_catch cfg env msg runId w evs =
     (case runId of
        None \<Rightarrow> \<lparr>final = w, events = evs @ [Logged ERROR], threw = False\<rparr>
      | Some rid \<Rightarrow>
          if truthy rid then
            (case update_run (catch_update_fails env) Error msg (clock w) rid w of
               Some w' \<Rightarrow> \<lparr>final = w',
                   events = evs @ [Logged ERROR, Sent (UpdateRunNow Error msg rid)] @ vlog cfg,
                   threw = False\<rparr>
             | None \<Rightarrow> \<lparr>final = w,
                   events = evs @ [Logged ERROR, Sent (UpdateRunNow Error msg rid)],
                   threw = True\<rparr>)
          else \<lparr>final = w, events = evs @ [Logged ERROR], threw = False\<rparr>)"

definition runJob :: "config \<Rightarrow> run_env \<Rightarrow> job \<Rightarrow> world \<Rightarrow> result" where
  "runJob cfg env job w =
     (let pre = [Logged INFO] @ vlog cfg @ [Sent (InsertRun (jid job) Running)]
      in case insert_run (insert_fails env) (new_run_id env) (jid job) w of
           None \<Rightarrow> run_catch cfg env [] None w pre
         | Some w1 \<Rightarrow>
             (case exec_out env of
                ExecThrows msg \<Rightarrow> run_catch cfg env msg (Some (new_run_id env)) w1 (pre @ vlog cfg)
              | ExecDone err stdout stderr elapsed \<Rightarrow>
                  (let w2 = w1\<lparr>clock := clock w1 + int elapsed\<rparr>;
                       cb = exec_callback cfg env (new_run_id env) err stdout stderr w2;
                       evs = pre @ vlog cfg @ [Exec (command job) 60000] @ snd cb
                   in case err of
                        None \<Rightarrow> \<lparr>final = fst cb, events = evs, threw = False\<rparr>
                      | Some msg \<Rightarrow>
                          run_catch cfg env msg (Some (new_run_id env)) (fst cb) evs)))"

section \<open>Scheduler Controller and Task Registry\<close>

text \<open>
  \<open>scheduleJob(job, runNow)\<close>. The second argument is \<open>None\<close> for \<open>runNow = false\<close> and
  \<open>Some env\<close> for \<open>runNow = true\<close>, with what the immediate run meets.
\<close>

definition scheduleJob :: "config \<Rightarrow> job \<Rightarrow> run_env option \<Rightarrow> world \<Rightarrow> result" where
  "scheduleJob cfg job runNow w =
     (case runNow of
        Some env \<Rightarrow> (let r = runJob cfg env job w in r\<lparr>events := Logged INFO # events r\<rparr>)
      | None \<Rightarrow>
          if cron_validate cfg (schedule job) then
            \<lparr>final = w\<lparr>triggers := (triggers w)(next_task w \<mapsto> job),
                        next_task := Suc (next_task w),
                        scheduledJobs := (scheduledJobs w)(jid job \<mapsto> next_task w)\<rparr>,
             events = [Logged INFO], threw = False\<rparr>
          else \<lparr>final = w, events = [Logged WARN], threw = False\<rparr>)"

definition cancelJob :: "jsval \<Rightarrow> world \<Rightarrow> result" where
  "cancelJob k w =
     (case scheduledJobs w k of
        Some task \<Rightarrow>
          \<lparr>final = w\<lparr>triggers := (triggers w)(task := None),
                      scheduledJobs := (scheduledJobs w)(k := None)\<rparr>,
           events = [Logged INFO], threw = False\<rparr>
      | None \<Rightarrow> \<lparr>final = w, events = [Logged WARN], threw = False\<rparr>)"

text \<open>The loop of \<open>initScheduler\<close> over the rows, with the counters \<open>loaded\<close> and \<open>skipped\<close>.\<close>

fun load_rows :: "config \<Rightarrow> job list \<Rightarrow> world \<times> event list \<times> nat \<times> nat
    \<Rightarrow> world \<times> event list \<times> nat \<times> nat" where
  "load_rows cfg [] acc = acc"
| "load_rows cfg (job # rows) (w, evs, loaded, skipped) =
     (if status job = Paused then load_rows cfg rows (w, evs @ vlog cfg, loaded, Suc skipped)
      else let r = scheduleJob cfg job None w
           in load_rows cfg rows (final r, evs @ events r, Suc loaded, skipped))"

definition initScheduler :: "config \<Rightarrow> bool \<Rightarrow> world \<Rightarrow> result" where
  "initScheduler cfg select_fails w =
     (if select_fails then \<lparr>final = w, events = [Logged INFO, Sent SelectJobs], threw = True\<rparr>
      else case load_rows cfg (jobs w) (w, [Logged INFO, Sent SelectJobs], 0, 0) of
             (w', evs, loaded, skipped) \<Rightarrow>
               \<lparr>final = w', events = evs @ [Logged INFO, Logged INFO, Logged INFO], threw = False\<rparr>)"

section \<open>Retention Sweeper\<close>

record cleanup_env =
  count_before_fails :: bool
  delete_fails :: bool
  count_after_fails :: bool

definition cleanupOldRuns :: "config \<Rightarrow> cleanup_env \<Rightarrow> world \<Rightarrow> result" where
  "cleanupOldRuns cfg env w =
     (if VERBOSE cfg \<and> count_before_fails env then
        \<lparr>final = w, events = [Logged INFO, Sent CountRuns, Logged ERROR], threw = False\<rparr>
      else
        let evs = [Logged INFO] @ (if VERBOSE cfg then [Sent CountRuns] else []) @ [Sent DeleteOldRuns]
        in case delete_old_runs (delete_fails env) w of
             None \<Rightarrow> \<lparr>final = w, events = evs @ [Logged ERROR], threw = False\<rparr>
           | Some (rowCount, w') \<Rightarrow>
               if VERBOSE cfg \<and> count_after_fails env then
                 \<lparr>final = w', events = evs @ [Sent CountRuns, Logged ERROR], threw = False\<rparr>
               else if VERBOSE cfg then
                 \<lparr>final = w', events = evs @ [Sent CountRuns, Logged LOG, Logged LOG, Logged LOG],
                  threw = False\<rparr>
               else if rowCount > 0 then
                 \<lparr>final = w', events = evs @ [Logged INFO], threw = False\<rparr>
               else \<lparr>final = w', events = evs, threw = False\<rparr>)"

section \<open>The routes that drive the scheduler\<close>

text \<open>
  The handlers of the job routes, each run from start to end. A route parameter \<open>p\<close> is a
  string, so the key a handler passes to \<open>cancelJob\<close> is \<open>JStr p\<close>. A field of the request
  body that is missing counts as the empty string: \<open>!x\<close> holds for both.
\<close>

datatype reply = Failure nat string | Created job | Ok

record http_result = result +
  response :: "reply option"

definition post_create ::
  "config \<Rightarrow> bool \<Rightarrow> jsval \<Rightarrow> jsstring \<Rightarrow> jsstring \<Rightarrow> jsstring \<Rightarrow> world \<Rightarrow> http_result" where
  "post_create cfg ins_fails newid nm cmd sch w =
     (if nm = [] \<or> cmd = [] \<or> sch = [] then
        \<lparr>final = w, events = [], threw = False,
         response = Some (Failure 400 ''name, command, schedule required'')\<rparr>
      else if length cmd > 2000 then
        \<lparr>final = w, events = [], threw = False, response = Some (Failure 400 ''command too long'')\<rparr>
      else if isForbidden cmd then
        \<lparr>final = w, events = [], threw = False,
         response = Some (Failure 400 ''command contains forbidden operations'')\<rparr>
      else if \<not> cron_validate cfg sch then
        \<lparr>final = w, events = [], threw = False,
         response = Some (Failure 400 ''invalid cron expression'')\<rparr>
      else case insert_job ins_fails newid nm cmd sch w of
             None \<Rightarrow>
               \<lparr>final = w, events = [Sent (InsertJob nm cmd sch Active), Logged ERROR],
                threw = False, response = Some (Failure 500 ''internal server error'')\<rparr>
           | Some (job, w1) \<Rightarrow>
               (let r = scheduleJob cfg job None w1
                in \<lparr>final = final r, events = Sent (InsertJob nm cmd sch Active) # events r,
                    threw = False, response = Some (Created job)\<rparr>))"

definition post_pause :: "config \<Rightarrow> bool \<Rightarrow> bool \<Rightarrow> jsstring \<Rightarrow> world \<Rightarrow> http_result" where
  "post_pause cfg sel_fails upd_fails p w =
     (case select_job cfg sel_fails p w of
        None \<Rightarrow>
          \<lparr>final = w, events = [Sent (SelectJob p), Logged ERROR], threw = False,
           response = Some (Failure 500 ''internal server error'')\<rparr>
      | Some None \<Rightarrow>
          \<lparr>final = w, events = [Sent (SelectJob p)], threw = False,
           response = Some (Failure 404 ''job not found'')\<rparr>
      | Some (Some job) \<Rightarrow>
          (case update_job_status cfg upd_fails Paused p w of
             None \<Rightarrow>
               \<lparr>final = w,
                events = [Sent (SelectJob p), Sent (UpdateJobStatus Paused p), Logged ERROR],
                threw = False, response = Some (Failure 500 ''internal server error'')\<rparr>
           | Some w1 \<Rightarrow>
               (let r = cancelJob (JStr p) w1
                in \<lparr>final = final r,
                    events = [Sent (SelectJob p), Sent (UpdateJobStatus Paused p)] @ events r,
                    threw = False, response = Some Ok\<rparr>)))"

definition post_resume :: "config \<Rightarrow> bool \<Rightarrow> bool \<Rightarrow> jsstring \<Rightarrow> world \<Rightarrow> http_result" where
  "post_resume cfg sel_fails upd_fails p w =
     (case select_job cfg sel_fails p w of
        None \<Rightarrow>
          \<lparr>final = w, events = [Sent (SelectJob p), Logged ERROR], threw = False,
           response = Some (Failure 500 ''internal server error'')\<rparr>
      | Some None \<Rightarrow>
          \<lparr>final = w, events = [Sent (SelectJob p)], threw = False,
           response = Some (Failure 404 ''job not found'')\<rparr>
      | Some (Some job) \<Rightarrow>
          if status job \<noteq> Paused then
            \<lparr>final = w, events = [Sent (SelectJob p)], threw = False,
             response = Some (Failure 400 ''job is not paused'')\<rparr>
          else
            (case update_job_status cfg upd_fails Active p w of
               None \<Rightarrow>
                 \<lparr>final = w,
                  events = [Sent (SelectJob p), Sent (UpdateJobStatus Active p), Logged ERROR],
                  threw = False, response = Some (Failure 500 ''internal server error'')\<rparr>
             | Some w1 \<Rightarrow>
                 (let r = scheduleJob cfg job None w1
                  in \<lparr>final = final r,
                      events = [Sent (SelectJob p), Sent (UpdateJobStatus Active p)] @ events r,
                      threw = False, response = Some Ok\<rparr>)))"

text \<open>The delete route has no \<open>try\<close>: a rejected statement leaves the handler by an exception.\<close>

definition delete_route :: "config \<Rightarrow> bool \<Rightarrow> jsstring \<Rightarrow> world \<Rightarrow> http_result" where
  "delete_route cfg del_fails p w =
     (case delete_job cfg del_fails p w of
        None \<Rightarrow> \<lparr>final = w, events = [Sent (DeleteJob p)], threw = True, response = None\<rparr>
      | Some w1 \<Rightarrow>
          (let r = cancelJob (JStr p) w1
           in \<lparr>final = final r, events = Sent (DeleteJob p) # events r, threw = False,
               response = Some Ok\<rparr>))"

section \<open>Sequences of public operations\<close>

datatype op =
    Create bool jsval jsstring jsstring jsstring
  | Pause bool bool jsstring
  | Resume bool bool jsstring
  | Delete bool jsstring
  | ScheduleJob job "run_env option"
  | CancelJob jsval
  | InitScheduler bool

fun step :: "config \<Rightarrow> op \<Rightarrow> world \<Rightarrow> world" where
  "step cfg (Create f newid nm cmd sch) w = final (post_create cfg f newid nm cmd sch w)"
| "step cfg (Pause f g p) w = final (post_pause cfg f g p w)"
| "step cfg (Resume f g p) w = final (post_resume cfg f g p w)"
| "step cfg (Delete f p) w = final (delete_route cfg f p w)"
| "step cfg (ScheduleJob job runNow) w = final (scheduleJob cfg job runNow w)"
| "step cfg (CancelJob k) w = final (cancelJob k w)"
| "step cfg (InitScheduler f) w = final (initScheduler cfg f w)"

fun run_ops :: "config \<Rightarrow> op list \<Rightarrow> world \<Rightarrow> world" where
  "run_ops cfg [] w = w"
| "run_ops cfg (x # xs) w = run_ops cfg xs (step cfg x w)"

text \<open>The operations that the routes offer.\<close>

fun api_op :: "op \<Rightarrow> bool" where
  "api_op (Create f newid nm cmd sch) = True"
| "api_op (Pause f g p) = True"
| "api_op (Resume f g p) = True"
| "api_op (Delete f p) = True"
| "api_op _ = False"

text \<open>A process that has just started: nothing registered, no task, an initial store.\<close>

definition fresh :: "job list \<Rightarrow> job_run list \<Rightarrow> int \<Rightarrow> world" where
  "fresh rows runs t = \<lparr>jobs = rows, job_runs = runs, scheduledJobs = Map.empty, triggers = Map.empty,
     next_task = 0, clock = t\<rparr>"

text \<open>
  The tasks that are live for a job id, and the invariant of the Task Registry: a job id
  is registered exactly when some job row with that id is active with a valid schedule, and
  the live tasks of an id are the registered one and no other.
\<close>

definition live_tasks :: "world \<Rightarrow> jsval \<Rightarrow> nat set" where
  "live_tasks w k = {t. \<exists>j. triggers w t = Some j \<and> jid j = k}"

definition registry_ok :: "config \<Rightarrow> world \<Rightarrow> bool" where
  "registry_ok cfg w \<longleftrightarrow>
     (\<forall>k. (scheduledJobs w k \<noteq> None) =
          (\<exists>j \<in> set (jobs w). jid j = k \<and> status j = Active \<and> cron_validate cfg (schedule j))) \<and>
     (\<forall>k. live_tasks w k = (case scheduledJobs w k of None \<Rightarrow> {} | Some t \<Rightarrow> {t}))"

section \<open>Auxiliary definitions and concrete inputs\<close>

text \<open>
  An expression is blind to letter case when every literal in it is matched under the \<open>i\<close>
  flag or is no ASCII letter.
\<close>

fun caseless :: "bool \<Rightarrow> rx \<Rightarrow> bool" where
  "caseless ic (Lit c) = (ic \<or> \<not> (65 \<le> c \<and> c \<le> 90) \<and> \<not> (97 \<le> c \<and> c \<le> 122))"
| "caseless ic (Seq r1 r2) = (caseless ic r1 \<and> caseless ic r2)"
| "caseless ic (Alt r1 r2) = (caseless ic r1 \<and> caseless ic r2)"
| "caseless ic _ = True"

abbreviation up :: "pos \<Rightarrow> pos" where
  "up \<equiv> (\<lambda>(b, t). (b, map canon t))"

text \<open>
  A configuration that accepts the schedule \<open>* * * * *\<close> only and whose store hands out job
  ids as the strings the routes receive.
\<close>

definition cfg0 :: config where
  "cfg0 = \<lparr>VERBOSE = False, cron_validate = (\<lambda>s. s = js ''* * * * *''),
     id_matches = (\<lambda>v p. v = JStr p)\<rparr>"

text \<open>
  The job of the spec's scenario, which prints \<open>hello\<close> and exits cleanly, and a job whose
  command prints \<open>partial\<close> and exits with code 1, each with what its run meets: the store
  works; \<open>exec\<close> reports the failed command by an error whose message is
  \<open>Command failed:\<close>, the command, a line feed and the (empty) \<open>stderr\<close>.
\<close>

definition job_hello :: job where
  "job_hello = \<lparr>jid = JStr (js ''1''), name = js ''hello'', command = js ''echo hello'',
     schedule = js ''* * * * *'', status = Active\<rparr>"

definition env_hello :: run_env where
  "env_hello = \<lparr>insert_fails = False, new_run_id = JNum 1,
     exec_out = ExecDone None (js ''hello'' @ [10]) [] 12,
     update_fails = False, catch_update_fails = False\<rparr>"

definition job_partial :: job where
  "job_partial = \<lparr>jid = JStr (js ''2''), name = js ''partial'',
     command = js ''echo partial; exit 1'', schedule = js ''* * * * *'', status = Active\<rparr>"

definition env_partial :: run_env where
  "env_partial = \<lparr>insert_fails = False, new_run_id = JNum 1,
     exec_out = ExecDone (Some (js ''Command failed: echo partial; exit 1'' @ [10]))
       (js ''partial'' @ [10]) [] 40,
     update_fails = False, catch_update_fails = False\<rparr>"

text \<open>The state after \<open>scheduleJob(job_hello)\<close> in a fresh process.\<close>

definition w_once :: world where
  "w_once = \<lparr>jobs = [job_hello], job_runs = [], scheduledJobs = [JStr (js ''1'') \<mapsto> 0],
     triggers = [0 \<mapsto> job_hello], next_task = 1, clock = 0\<rparr>"

text \<open>
  Three run rows seen at time 3000000000: one that finished long ago, one that never
  finished, one that finished a second ago.
\<close>

definition run_old :: job_run where
  "run_old = \<lparr>run_id = JNum 1, job_id = JStr (js ''1''), run_status = Success,
     started_at = Some 0, finished_at = Some 5, run_output = Some (js ''hello'')\<rparr>"

definition run_stuck :: job_run where
  "run_stuck = \<lparr>run_id = JNum 2, job_id = JStr (js ''1''), run_status = Running,
     started_at = Some 7, finished_at = None, run_output = None\<rparr>"

definition run_recent :: job_run where
  "run_recent = \<lparr>run_id = JNum 3, job_id = JStr (js ''1''), run_status = Success,
     started_at = Some 2999998000, finished_at = Some 2999999000,
     run_output = Some (js ''hello'')\<rparr>"

definition w_sweep :: world where
  "w_sweep = fresh [job_hello] [run_old, run_stuck, run_recent] 3000000000"

definition env_sweep :: cleanup_env where
  "env_sweep = \<lparr>count_before_fails = False, delete_fails = False, count_after_fails = False\<rparr>"

definition env_down :: cleanup_env where
  "env_down = \<lparr>count_before_fails = False, delete_fails = True, count_after_fails = False\<rparr>"

text \<open>
  The parts of the invariant and what its proof needs besides: the store compares a job id
  with a route parameter as the registry compares keys (ids are strings, compared as they
  are); every live task has a handle below the next unused one; job ids are unique.
\<close>

definition keys_agree :: "config \<Rightarrow> bool" where
  "keys_agree cfg \<longleftrightarrow> (\<forall>v p. id_matches cfg v p = (v = JStr p))"

definition handles_ok :: "world \<Rightarrow> bool" where
  "handles_ok w \<longleftrightarrow> (\<forall>t. triggers w t \<noteq> None \<longrightarrow> t < next_task w)"

definition reg_for :: "config \<Rightarrow> job list \<Rightarrow> world \<Rightarrow> bool" where
  "reg_for cfg rows w \<longleftrightarrow>
     (\<forall>k. (scheduledJobs w k \<noteq> None) =
          (\<exists>j \<in> set rows. jid j = k \<and> status j = Active \<and> cron_validate cfg (schedule j)))"

definition live_ok :: "world \<Rightarrow> bool" where
  "live_ok w \<longleftrightarrow>
     (\<forall>k. live_tasks w k = (case scheduledJobs w k of None \<Rightarrow> {} | Some t \<Rightarrow> {t}))"

definition sched_inv :: "config \<Rightarrow> world \<Rightarrow> bool" where
  "sched_inv cfg w \<longleftrightarrow> reg_for cfg (jobs w) w \<and> live_ok w \<and> handles_ok w \<and> distinct (map jid (jobs w))"

text \<open>
  A paused job; a store whose \<open>id\<close> column is numeric, so that the row with the number 1 is
  the one the route parameter \<open>1\<close> selects, with a job in it; a sequence of requests.
\<close>

definition job_paused :: job where
  "job_paused = \<lparr>jid = JStr (js ''3''), name = js ''paused'', command = js ''ls'',
     schedule = js ''* * * * *'', status = Paused\<rparr>"

definition cfg_num :: config where
  "cfg_num = \<lparr>VERBOSE = False, cron_validate = (\<lambda>s. s = js ''* * * * *''),
     id_matches = (\<lambda>v p. v = JNum 1 \<and> p = js ''1'')\<rparr>"

definition job_num :: job where
  "job_num = \<lparr>jid = JNum 1, name = js ''hello'', command = js ''echo hello'',
     schedule = js ''* * * * *'', status = Active\<rparr>"

definition ops0 :: "op list" where
  "ops0 = [Create False (JStr (js ''2'')) (js ''second'') (js ''ls'') (js ''* * * * *''),
     Pause False False (js ''1''), Resume False False (js ''1''), Delete False (js ''2'')]"

section \<open>Properties of the Command Safety Gate\<close>

lemmas gate_defs = isForbidden_def FORBIDDEN_PATTERNS_def re_test_def starts_def js_def
  re_sudo_def re_rm_def re_fork1_def re_dd_def re_mkfs_def re_fork2_def
  char_eq_def canon_def is_space_def

lemma any_test_list_ex: "any_test res c = (\<exists>re \<in> set res. re_test re c)"
  by (induction res) auto

lemma js_simps:
  "js ''sudo'' = [115, 117, 100, 111]" "js ''rm'' = [114, 109]" "js ''-rf'' = [45, 114, 102]"
  "js ''dd'' = [100, 100]" "js ''if='' = [105, 102, 61]" "js ''mkfs.'' = [109, 107, 102, 115, 46]"
  by (simp_all add: js_def)

text \<open>No expression of the list matches the empty string, so the guard \<open>!command\<close> changes nothing.\<close>

lemma no_match_empty: "re \<in> set FORBIDDEN_PATTERNS \<Longrightarrow> \<not> re_test re []"
  by (auto simp: FORBIDDEN_PATTERNS_def re_test_def starts_def js_simps
      re_sudo_def re_rm_def re_fork1_def re_dd_def re_mkfs_def re_fork2_def)

lemma isForbidden_iff: "isForbidden c = (\<exists>re \<in> set FORBIDDEN_PATTERNS. re_test re c)"
  using no_match_empty by (auto simp: isForbidden_def any_test_list_ex)

lemma canon_idem: "canon (canon x) = canon x"
  unfolding canon_def by (simp; arith)

lemma is_space_canon: "is_space (canon x) = is_space x"
  by (auto simp: canon_def is_space_def)

lemma spaces_from_canon: "spaces_from (b, map canon s) = map up (spaces_from (b, s))"
  by (induction s arbitrary: b) (auto simp: is_space_canon)

lemma char_eq_canon:
  "ic \<or> \<not> (65 \<le> c \<and> c \<le> 90) \<and> \<not> (97 \<le> c \<and> c \<le> 122) \<Longrightarrow>
   char_eq ic c (canon x) = char_eq ic c x"
  unfolding char_eq_def canon_def by (simp; arith)

lemma rx_ends_canon:
  "caseless ic r \<Longrightarrow> rx_ends ic r (b, map canon s) = map up (rx_ends ic r (b, s))"
proof (induction r arbitrary: b s)
  case (Seq r1 r2)
  have "\<And>p. rx_ends ic r2 (up p) = map up (rx_ends ic r2 p)"
    using Seq by (auto simp: split_def)
  then show ?case using Seq by (simp add: map_concat comp_def)
qed (auto simp: spaces_from_canon char_eq_canon is_space_canon split: list.splits)

lemma later_starts_canon: "later_starts (map canon s) = map up (later_starts s)"
  by (induction s) auto

lemma re_test_canon:
  assumes "caseless (ignoreCase re) (body re)"
  shows "re_test re (map canon s) = re_test re s"
proof -
  have "\<And>p. (rx_ends (ignoreCase re) (body re) (up p) \<noteq> []) =
      (rx_ends (ignoreCase re) (body re) p \<noteq> [])"
    using rx_ends_canon [OF assms] by (auto simp: split_def)
  then show ?thesis
    by (simp add: re_test_def starts_def later_starts_canon list_ex_iff rx_ends_canon [OF assms])
qed

lemma patterns_caseless: "re \<in> set FORBIDDEN_PATTERNS \<Longrightarrow> caseless (ignoreCase re) (body re)"
  by (auto simp: FORBIDDEN_PATTERNS_def js_simps
      re_sudo_def re_rm_def re_fork1_def re_dd_def re_mkfs_def re_fork2_def)

lemma isForbidden_canon: "isForbidden (map canon c) = isForbidden c"
  by (simp add: isForbidden_iff re_test_canon patterns_caseless cong: bex_cong)

lemma sudo_rm_matches: "re_test re_sudo (js ''sudo rm -rf /'')"
  by (simp add: gate_defs)

lemma echo_hello_clean: "\<not> isForbidden (js ''echo hello'')"
  by (simp add: gate_defs)

lemma mkfs_same_letters: "map canon (js ''MKFS.ext4 x'') = map canon (js ''mkfs.EXT4 X'')"
  by (simp add: gate_defs)

text \<open>
  What the two fork-bomb expressions match. The second catches the compact text
  \<open>:(){:|:&};:\<close> through its right alternative. The first has no \<open>&\<close> between the
  second colon and the semicolon, so the usual text with blanks, \<open>:(){ :|:& };:\<close>, matches
  neither; and \<open>sudo\<close> is matched as a word between white space only.
\<close>

lemma fork_bomb_compact_forbidden: "isForbidden (js '':(){:|:&};:'')"
  by (simp add: gate_defs)

lemma fork_bomb_spaced_not_forbidden: "\<not> isForbidden (js '':(){ :|:& };:'')"
  by (simp add: gate_defs)

lemma sudo_in_path_not_forbidden: "\<not> isForbidden (js ''/usr/bin/sudo ls'')"
  by (simp add: gate_defs)

text \<open>
  The gate as written: a command is forbidden exactly when some expression of the list
  matches it; the verdict does not depend on the case of ASCII letters (the two fork-bomb
  expressions lack the \<open>i\<close> flag but contain no letter); the create route answers 400 to a
  command of more than 2000 code units, sends nothing to the store and schedules nothing.
\<close>

lemma isForbidden_as_written:
  "((\<exists>re \<in> set FORBIDDEN_PATTERNS. re_test re cmd) \<longrightarrow> isForbidden cmd) \<and>
   ((\<forall>re \<in> set FORBIDDEN_PATTERNS. \<not> re_test re cmd) \<longrightarrow> \<not> isForbidden cmd) \<and>
   (map canon cmd = map canon cmd' \<longrightarrow> isForbidden cmd = isForbidden cmd') \<and>
   (length cmd > 2000 \<longrightarrow>
      (\<exists>msg. post_create cfg f newid nm cmd sch w =
         \<lparr>final = w, events = [], threw = False, response = Some (Failure 400 msg)\<rparr>))"
proof -
  have "isForbidden cmd = isForbidden cmd'" if "map canon cmd = map canon cmd'"
    using that isForbidden_canon [of cmd] isForbidden_canon [of cmd'] by simp
  moreover have "\<exists>msg. post_create cfg f newid nm cmd sch w =
         \<lparr>final = w, events = [], threw = False, response = Some (Failure 400 msg)\<rparr>"
    if "length cmd > 2000"
    using that by (simp add: post_create_def)
  ultimately show ?thesis by (simp add: isForbidden_iff)
qed

text \<open>
  The four named texts, in any letter case, wherever they stand in a command: \<open>mkfs.\<close>;
  \<open>rm\<close> and \<open>-rf\<close>, and \<open>dd\<close> and \<open>if=\<close>, with white space between; \<open>sudo\<close> as a word,
  with white space or an end of the command on each side.
\<close>

lemma later_starts_append: "pre \<noteq> [] \<Longrightarrow> (False, s) \<in> set (later_starts (pre @ s))"
proof (induction pre)
  case Nil
  then show ?case by simp
next
  case (Cons x xs)
  then show ?case by (cases xs) simp_all
qed

lemma starts_append: "(pre = [], s) \<in> set (starts (pre @ s))"
  using later_starts_append [of pre s] by (cases pre) (simp_all add: starts_def)

lemma re_test_at:
  "rx_ends (ignoreCase re) (body re) (pre = [], s) \<noteq> [] \<Longrightarrow> re_test re (pre @ s)"
  unfolding re_test_def list_ex_iff using starts_append [of pre s] by blast

lemma spaces_from_skip:
  "list_all is_space ws \<Longrightarrow> \<exists>b'. (b', rest) \<in> set (spaces_from (b, ws @ rest))"
proof (induction ws arbitrary: b)
  case Nil
  then show ?case by (cases rest) auto
next
  case (Cons x xs)
  then obtain b' where "(b', rest) \<in> set (spaces_from (False, xs @ rest))" by auto
  then show ?case using Cons.prems by auto
qed

lemma mkfs_anywhere:
  assumes "map canon u = map canon (js ''mkfs.'')"
  shows "isForbidden (pre @ u @ post)"
proof -
  from assms obtain a b c d e where u: "u = [a, b, c, d, e]"
    and l: "canon a = 77" "canon b = 75" "canon c = 70" "canon d = 83" "canon e = 46"
    by (auto simp: js_def canon_def map_eq_Cons_conv)
  have "rx_ends (ignoreCase re_mkfs) (body re_mkfs) (pre = [], u @ post) \<noteq> []"
    using l by (simp add: u re_mkfs_def js_simps char_eq_def canon_def)
  then have "re_test re_mkfs (pre @ u @ post)" by (rule re_test_at)
  then show ?thesis by (auto simp: isForbidden_iff FORBIDDEN_PATTERNS_def)
qed


lemma concat_map_nonempty:
  "p \<in> set ps \<Longrightarrow> f p \<noteq> [] \<Longrightarrow> concat (map f ps) \<noteq> []"
  by (induction ps) auto

lemma rm_rf_anywhere:
  assumes "map canon r = map canon (js ''rm'')" and "ws \<noteq> []" and "list_all is_space ws"
    and "map canon f = map canon (js ''-rf'')"
  shows "isForbidden (pre @ r @ ws @ f @ post)"
proof -
  from assms(1) obtain a b where r: "r = [a, b]" and l1: "canon a = 82" "canon b = 77"
    by (auto simp: js_def canon_def map_eq_Cons_conv)
  from assms(4) obtain c d e where f: "f = [c, d, e]"
    and l2: "canon c = 45" "canon d = 82" "canon e = 70"
    by (auto simp: js_def canon_def map_eq_Cons_conv)
  from assms(2,3) obtain x xs where ws: "ws = x # xs" and sp: "is_space x" "list_all is_space xs"
    by (cases ws) auto
  from spaces_from_skip [OF sp(2), of "f @ post" False]
  obtain b' where p: "(b', f @ post) \<in> set (spaces_from (False, xs @ f @ post))" by blast
  have t: "rx_ends True (lits (js ''-rf'')) (b', f @ post) \<noteq> []"
    using l2 by (simp add: f js_simps char_eq_def canon_def)
  have "rx_ends (ignoreCase re_rm) (body re_rm) (pre = [], r @ ws @ f @ post) \<noteq> []"
    using l1 sp(1) concat_map_nonempty [of _ _ "rx_ends True (lits (js ''-rf''))", OF p t]
    by (simp add: r ws re_rm_def js_simps char_eq_def canon_def)
  then have "re_test re_rm (pre @ r @ ws @ f @ post)" by (rule re_test_at)
  then show ?thesis by (auto simp: isForbidden_iff FORBIDDEN_PATTERNS_def)
qed

lemma dd_if_anywhere:
  assumes "map canon r = map canon (js ''dd'')" and "ws \<noteq> []" and "list_all is_space ws"
    and "map canon f = map canon (js ''if='')"
  shows "isForbidden (pre @ r @ ws @ f @ post)"
proof -
  from assms(1) obtain a b where r: "r = [a, b]" and l1: "canon a = 68" "canon b = 68"
    by (auto simp: js_def canon_def map_eq_Cons_conv)
  from assms(4) obtain c d e where f: "f = [c, d, e]"
    and l2: "canon c = 73" "canon d = 70" "canon e = 61"
    by (auto simp: js_def canon_def map_eq_Cons_conv)
  from assms(2,3) obtain x xs where ws: "ws = x # xs" and sp: "is_space x" "list_all is_space xs"
    by (cases ws) auto
  from spaces_from_skip [OF sp(2), of "f @ post" False]
  obtain b' where p: "(b', f @ post) \<in> set (spaces_from (False, xs @ f @ post))" by blast
  have t: "rx_ends True (lits (js ''if='')) (b', f @ post) \<noteq> []"
    using l2 by (simp add: f js_simps char_eq_def canon_def)
  have "rx_ends (ignoreCase re_dd) (body re_dd) (pre = [], r @ ws @ f @ post) \<noteq> []"
    using l1 sp(1) concat_map_nonempty [of _ _ "rx_ends True (lits (js ''if=''))", OF p t]
    by (simp add: r ws re_dd_def js_simps char_eq_def canon_def)
  then have "re_test re_dd (pre @ r @ ws @ f @ post)" by (rule re_test_at)
  then show ?thesis by (auto simp: isForbidden_iff FORBIDDEN_PATTERNS_def)
qed

lemma sudo_word_anywhere:
  assumes "map canon u = map canon (js ''sudo'')"
    and "pre = [] \<or> is_space (last pre)"
    and "post = [] \<or> is_space (hd post)"
  shows "isForbidden (pre @ u @ post)"
proof -
  from assms(1) obtain a b c d where u: "u = [a, b, c, d]"
    and l: "canon a = 83" "canon b = 85" "canon c = 68" "canon d = 79"
    by (auto simp: js_def canon_def map_eq_Cons_conv)
  have tail: "rx_ends True (Alt Space Eol) (False, post) \<noteq> []"
    using assms(3) by (cases post) auto
  have word: "rx_ends True (Seq (lits (js ''sudo'')) (Alt Space Eol)) (b0, u @ post) \<noteq> []" for b0
    using l tail by (simp add: u js_simps char_eq_def canon_def)
  have "re_test re_sudo (pre @ u @ post)"
  proof (cases "pre = []")
    case True
    have "rx_ends (ignoreCase re_sudo) (body re_sudo) ([] = [], u @ post) \<noteq> []"
      using word [of True] by (simp add: re_sudo_def)
    from re_test_at [OF this] show ?thesis using True by simp
  next
    case False
    then obtain pre' x where pre: "pre = pre' @ [x]" and sp: "is_space x"
      using assms(2) by (metis append_butlast_last_id)
    have "rx_ends (ignoreCase re_sudo) (body re_sudo) (pre' = [], x # u @ post) \<noteq> []"
      using word [of False] sp by (simp add: re_sudo_def)
    from re_test_at [OF this] show ?thesis by (simp add: pre)
  qed
  then show ?thesis by (auto simp: isForbidden_iff FORBIDDEN_PATTERNS_def)
qed

text \<open>
  C3, evaluated on the fork bomb. The usual text of the fork bomb, \<open>:(){ :|:& };:\<close>, is
  matched by no expression of the list and is not forbidden: the expression that the source
  marks \<open>fork bomb\<close> allows white space between the tokens but has no \<open>&\<close> between the
  second colon and the semicolon, so it matches \<open>:(){ :|:; }\<close> instead; the one marked
  \<open>another fork bomb\<close> is unescaped and matches the text without blanks only, and also
  any command that contains \<open>:{:\<close>. The create route accepts the fork bomb and schedules it.
\<close>

theorem isForbidden_misses_fork_bomb:
  "\<not> isForbidden (js '':(){ :|:& };:'') \<and>
   \<not> (\<exists>re \<in> set FORBIDDEN_PATTERNS. re_test re (js '':(){ :|:& };:'')) \<and>
   re_test re_fork1 (js '':(){ :|:; }'') \<and>
   isForbidden (js '':(){:|:&};:'') \<and>
   isForbidden (js ''echo :{:'') \<and>
   post_create cfg0 False (JStr (js ''9'')) (js ''bomb'') (js '':(){ :|:& };:'')
       (js ''* * * * *'') (fresh [] [] 0) =
     \<lparr>final = \<lparr>jobs = [\<lparr>jid = JStr (js ''9''), name = js ''bomb'',
                 command = js '':(){ :|:& };:'', schedule = js ''* * * * *'', status = Active\<rparr>],
               job_runs = [], scheduledJobs = [JStr (js ''9'') \<mapsto> 0],
               triggers = [0 \<mapsto> \<lparr>jid = JStr (js ''9''), name = js ''bomb'',
                 command = js '':(){ :|:& };:'', schedule = js ''* * * * *'', status = Active\<rparr>],
               next_task = 1, clock = 0\<rparr>,
      events = [Sent (InsertJob (js ''bomb'') (js '':(){ :|:& };:'') (js ''* * * * *'') Active),
                Logged INFO],
      threw = False,
      response = Some (Created \<lparr>jid = JStr (js ''9''), name = js ''bomb'',
                 command = js '':(){ :|:& };:'', schedule = js ''* * * * *'', status = Active\<rparr>)\<rparr>"
proof -
  have a: "\<not> isForbidden (js '':(){ :|:& };:'')"
    by (rule fork_bomb_spaced_not_forbidden)
  then have b: "\<not> (\<exists>re \<in> set FORBIDDEN_PATTERNS. re_test re (js '':(){ :|:& };:''))"
    by (simp add: isForbidden_iff)
  have c: "re_test re_fork1 (js '':(){ :|:; }'')"
    by (simp add: gate_defs)
  have d: "isForbidden (js '':(){:|:&};:'')"
    by (rule fork_bomb_compact_forbidden)
  have d': "isForbidden (js ''echo :{:'')"
    by (simp add: gate_defs)
  have n: "js ''bomb'' \<noteq> []" "js '':(){ :|:& };:'' \<noteq> []" "js ''* * * * *'' \<noteq> []"
    "length (js '':(){ :|:& };:'') = 13"
    by (simp_all add: js_def)
  have e: "post_create cfg0 False (JStr (js ''9'')) (js ''bomb'') (js '':(){ :|:& };:'')
       (js ''* * * * *'') (fresh [] [] 0) =
     \<lparr>final = \<lparr>jobs = [\<lparr>jid = JStr (js ''9''), name = js ''bomb'',
                 command = js '':(){ :|:& };:'', schedule = js ''* * * * *'', status = Active\<rparr>],
               job_runs = [], scheduledJobs = [JStr (js ''9'') \<mapsto> 0],
               triggers = [0 \<mapsto> \<lparr>jid = JStr (js ''9''), name = js ''bomb'',
                 command = js '':(){ :|:& };:'', schedule = js ''* * * * *'', status = Active\<rparr>],
               next_task = 1, clock = 0\<rparr>,
      events = [Sent (InsertJob (js ''bomb'') (js '':(){ :|:& };:'') (js ''* * * * *'') Active),
                Logged INFO],
      threw = False,
      response = Some (Created \<lparr>jid = JStr (js ''9''), name = js ''bomb'',
                 command = js '':(){ :|:& };:'', schedule = js ''* * * * *'', status = Active\<rparr>)\<rparr>"
    using a n
    by (simp add: post_create_def insert_job_def scheduleJob_def cfg0_def fresh_def Let_def)
  show ?thesis using a b c d d' e by (intro conjI)
qed

section \<open>Properties of the Scheduler Controller\<close>

text \<open>
  C8. With \<open>runNow = false\<close> and a schedule that \<open>cron.validate\<close> refuses, \<open>scheduleJob\<close>
  returns normally, leaves the whole state as it was (nothing is registered, no task is
  created) and logs one warning.
\<close>

theorem scheduleJob_invalid_cron:
  "\<not> cron_validate cfg (schedule job) \<Longrightarrow>
   scheduleJob cfg job None w = \<lparr>final = w, events = [Logged WARN], threw = False\<rparr>"
  by (simp add: scheduleJob_def)

theorem scheduleJob_invalid_cron_witness:
  "\<not> cron_validate cfg0 (schedule \<lparr>jid = JStr (js ''1''), name = js ''j'', command = js ''ls'',
        schedule = js ''every day'', status = Active\<rparr>) \<and>
   scheduleJob cfg0 \<lparr>jid = JStr (js ''1''), name = js ''j'', command = js ''ls'',
        schedule = js ''every day'', status = Active\<rparr> None (fresh [] [] 0) =
     \<lparr>final = fresh [] [] 0, events = [Logged WARN], threw = False\<rparr>"
proof -
  have h: "\<not> cron_validate cfg0 (schedule \<lparr>jid = JStr (js ''1''), name = js ''j'',
      command = js ''ls'', schedule = js ''every day'', status = Active\<rparr>)"
    by (simp add: cfg0_def js_def)
  show ?thesis using h scheduleJob_invalid_cron [OF h, of "fresh [] [] 0"] by simp
qed

text \<open>
  C9. \<open>cancelJob\<close> on an id that is not registered returns normally, leaves the state as it
  was and logs one warning. After any call of \<open>cancelJob\<close> a second call on the same id is
  such a no-op.
\<close>

theorem cancelJob_absent_is_noop:
  "(scheduledJobs w k = None \<longrightarrow>
      cancelJob k w = \<lparr>final = w, events = [Logged WARN], threw = False\<rparr>) \<and>
   cancelJob k (final (cancelJob k w)) =
      \<lparr>final = final (cancelJob k w), events = [Logged WARN], threw = False\<rparr>"
  by (simp add: cancelJob_def split: option.splits)

theorem cancelJob_absent_is_noop_witness:
  "scheduledJobs (fresh [] [] 0) (JStr (js ''7'')) = None \<and>
   cancelJob (JStr (js ''7'')) (fresh [] [] 0) =
     \<lparr>final = fresh [] [] 0, events = [Logged WARN], threw = False\<rparr>"
  using cancelJob_absent_is_noop [of "fresh [] [] 0" "JStr (js ''7'')"]
  by (simp add: fresh_def)

section \<open>Properties of the Execution Engine\<close>

text \<open>
  C6. When the insert of the run row fails, \<open>runJob\<close> returns normally with the state as it
  was, so no run row exists for the invocation; the only statement sent is the failed insert,
  no process is spawned, no update is sent, and the failure is logged as an error.
\<close>

theorem runJob_insert_fails:
  "insert_run (insert_fails env) (new_run_id env) (jid job) w = None \<Longrightarrow>
   runJob cfg env job w =
     \<lparr>final = w,
      events = [Logged INFO] @ vlog cfg @ [Sent (InsertRun (jid job) Running), Logged ERROR],
      threw = False\<rparr>"
  by (simp add: runJob_def run_catch_def)

theorem runJob_insert_fails_witness:
  "insert_run (insert_fails (env_hello\<lparr>insert_fails := True\<rparr>))
      (new_run_id (env_hello\<lparr>insert_fails := True\<rparr>)) (jid job_hello) (fresh [job_hello] [] 1000)
     = None \<and>
   runJob cfg0 (env_hello\<lparr>insert_fails := True\<rparr>) job_hello (fresh [job_hello] [] 1000) =
     \<lparr>final = fresh [job_hello] [] 1000,
      events = [Logged INFO, Sent (InsertRun (JStr (js ''1'')) Running), Logged ERROR],
      threw = False\<rparr>"
proof -
  have h: "insert_run (insert_fails (env_hello\<lparr>insert_fails := True\<rparr>))
      (new_run_id (env_hello\<lparr>insert_fails := True\<rparr>)) (jid job_hello) (fresh [job_hello] [] 1000)
     = None"
    by (simp add: insert_run_def)
  show ?thesis
    using h runJob_insert_fails [OF h, of cfg0]
    by (simp add: vlog_def cfg0_def job_hello_def)
qed

lemma str_or_empty: "str_or s [] = s"
  by (simp add: str_or_def)

lemma update_fresh_row:
  "rid \<notin> run_id ` set rs \<Longrightarrow> map (\<lambda>r. if run_id r = rid then f r else r) rs = rs"
  by (induction rs) auto

text \<open>
  C2. Suppose the insert succeeds and \<open>exec\<close> calls back (with or without an error, a
  timeout being reported as an error). Then the insert has added one row with the job's id,
  status \<open>running\<close>, \<open>started_at\<close> the current time and the identifier the store
  returned. The first statement \<open>runJob\<close> sends after the spawn is an update of the row
  with that identifier, carrying status \<open>success\<close> if \<open>err\<close> is null and \<open>error\<close>
  otherwise, output the trimmed \<open>stdout + stderr\<close> or \<open>(no output)\<close> when that is empty,
  and \<open>finished_at\<close> the time of completion; the whole list of events of \<open>runJob\<close> is
  given, and when it throws. If the store executes that update, the row holds exactly these
  values when the callback ends, and the state \<open>runJob\<close> returns is the initial one with the
  clock advanced and that one row added: its status is \<open>success\<close> or \<open>error\<close> as said,
  \<open>started_at\<close> and \<open>finished_at\<close> are set, and its output is the trimmed output on a
  clean exit (on a failed command the \<open>catch\<close> block has then replaced the output by the
  error's message, see C1).
\<close>

theorem runJob_records_run:
  assumes "insert_run (insert_fails env) (new_run_id env) (jid job) w = Some w1"
    and "exec_out env = ExecDone err stdout stderr elapsed"
  shows "job_runs w1 = job_runs w @
           [\<lparr>run_id = new_run_id env, job_id = jid job, run_status = Running,
             started_at = Some (clock w), finished_at = None, run_output = None\<rparr>] \<and>
         events (runJob cfg env job w) =
            [Logged INFO] @ vlog cfg @ [Sent (InsertRun (jid job) Running)] @ vlog cfg @
            [Exec (command job) 60000,
             Sent (UpdateRun (if err = None then Success else Error)
                     (if trim (stdout @ stderr) = [] then js ''(no output)''
                      else trim (stdout @ stderr))
                     (clock w + int elapsed) (new_run_id env))] @
            (if update_fails env then [Logged ERROR]
             else [Logged INFO] @ vlog cfg @ vlog cfg @ vlog cfg) @
            (case err of
               None \<Rightarrow> []
             | Some msg \<Rightarrow>
                 Logged ERROR #
                 (if truthy (new_run_id env)
                  then Sent (UpdateRunNow Error msg (new_run_id env)) #
                       (if catch_update_fails env then [] else vlog cfg)
                  else [])) \<and>
         threw (runJob cfg env job w) =
            (err \<noteq> None \<and> truthy (new_run_id env) \<and> catch_update_fails env) \<and>
         (\<not> update_fails env \<longrightarrow>
            job_runs (fst (exec_callback cfg env (new_run_id env) err stdout stderr
                (w1\<lparr>clock := clock w1 + int elapsed\<rparr>))) = job_runs w @
              [\<lparr>run_id = new_run_id env, job_id = jid job,
                run_status = (if err = None then Success else Error),
                started_at = Some (clock w), finished_at = Some (clock w + int elapsed),
                run_output = Some (if trim (stdout @ stderr) = [] then js ''(no output)''
                                   else trim (stdout @ stderr))\<rparr>] \<and>
            final (runJob cfg env job w) =
              w\<lparr>job_runs := job_runs w @
                [\<lparr>run_id = new_run_id env, job_id = jid job,
                  run_status = (if err = None then Success else Error),
                  started_at = Some (clock w), finished_at = Some (clock w + int elapsed),
                  run_output = Some
                    (case err of
                       None \<Rightarrow> (if trim (stdout @ stderr) = [] then js ''(no output)''
                                else trim (stdout @ stderr))
                     | Some msg \<Rightarrow>
                         if truthy (new_run_id env) \<and> \<not> catch_update_fails env then msg
                         else if trim (stdout @ stderr) = [] then js ''(no output)''
                         else trim (stdout @ stderr))\<rparr>],
                clock := clock w + int elapsed\<rparr>)"
proof -
  from assms(1) have unused: "new_run_id env \<notin> run_id ` set (job_runs w)"
    and w1: "w1 = w\<lparr>job_runs := job_runs w @
        [\<lparr>run_id = new_run_id env, job_id = jid job, run_status = Running,
          started_at = Some (clock w), finished_at = None, run_output = None\<rparr>]\<rparr>"
    by (auto simp: insert_run_def split: if_splits)
  have c1: "job_runs w1 = job_runs w @
           [\<lparr>run_id = new_run_id env, job_id = jid job, run_status = Running,
             started_at = Some (clock w), finished_at = None, run_output = None\<rparr>]"
    by (simp add: w1)
  have c2: "events (runJob cfg env job w) =
            [Logged INFO] @ vlog cfg @ [Sent (InsertRun (jid job) Running)] @ vlog cfg @
            [Exec (command job) 60000,
             Sent (UpdateRun (if err = None then Success else Error)
                     (if trim (stdout @ stderr) = [] then js ''(no output)''
                      else trim (stdout @ stderr))
                     (clock w + int elapsed) (new_run_id env))] @
            (if update_fails env then [Logged ERROR]
             else [Logged INFO] @ vlog cfg @ vlog cfg @ vlog cfg) @
            (case err of
               None \<Rightarrow> []
             | Some msg \<Rightarrow>
                 Logged ERROR #
                 (if truthy (new_run_id env)
                  then Sent (UpdateRunNow Error msg (new_run_id env)) #
                       (if catch_update_fails env then [] else vlog cfg)
                  else []))"
    using assms
    by (cases err; cases "update_fails env"; cases "truthy (new_run_id env)";
        cases "catch_update_fails env")
       (simp_all add: runJob_def exec_callback_def run_catch_def update_run_def Let_def
          str_or_def w1)
  have c3: "threw (runJob cfg env job w) =
            (err \<noteq> None \<and> truthy (new_run_id env) \<and> catch_update_fails env)"
    using assms
    by (cases err; cases "update_fails env"; cases "truthy (new_run_id env)";
        cases "catch_update_fails env")
       (simp_all add: runJob_def exec_callback_def run_catch_def update_run_def Let_def
          str_or_def w1)
  have c4: "job_runs (fst (exec_callback cfg env (new_run_id env) err stdout stderr
                (w1\<lparr>clock := clock w1 + int elapsed\<rparr>))) = job_runs w @
              [\<lparr>run_id = new_run_id env, job_id = jid job,
                run_status = (if err = None then Success else Error),
                started_at = Some (clock w), finished_at = Some (clock w + int elapsed),
                run_output = Some (if trim (stdout @ stderr) = [] then js ''(no output)''
                                   else trim (stdout @ stderr))\<rparr>]"
    if "\<not> update_fails env"
    using that unused
    by (simp add: exec_callback_def update_run_def Let_def str_or_def w1 update_fresh_row)
  have c5: "final (runJob cfg env job w) =
              w\<lparr>job_runs := job_runs w @
                [\<lparr>run_id = new_run_id env, job_id = jid job,
                  run_status = (if err = None then Success else Error),
                  started_at = Some (clock w), finished_at = Some (clock w + int elapsed),
                  run_output = Some
                    (case err of
                       None \<Rightarrow> (if trim (stdout @ stderr) = [] then js ''(no output)''
                                else trim (stdout @ stderr))
                     | Some msg \<Rightarrow>
                         if truthy (new_run_id env) \<and> \<not> catch_update_fails env then msg
                         else if trim (stdout @ stderr) = [] then js ''(no output)''
                         else trim (stdout @ stderr))\<rparr>],
                clock := clock w + int elapsed\<rparr>"
    if ok: "\<not> update_fails env"
  proof -
    let ?out = "if trim (stdout @ stderr) = [] then js ''(no output)'' else trim (stdout @ stderr)"
    let ?row = "\<lambda>out. \<lparr>run_id = new_run_id env, job_id = jid job,
        run_status = (if err = None then Success else Error),
        started_at = Some (clock w), finished_at = Some (clock w + int elapsed),
        run_output = Some out\<rparr>"
    let ?wc = "\<lambda>out. w\<lparr>job_runs := job_runs w @ [?row out], clock := clock w + int elapsed\<rparr>"
    have cb: "fst (exec_callback cfg env (new_run_id env) err stdout stderr
        (w1\<lparr>clock := clock w1 + int elapsed\<rparr>)) = ?wc ?out"
      using ok unused
      by (simp add: exec_callback_def update_run_def Let_def str_or_def w1 update_fresh_row)
    show ?thesis
    proof (cases err)
      case None
      have "final (runJob cfg env job w) =
          fst (exec_callback cfg env (new_run_id env) err stdout stderr
            (w1\<lparr>clock := clock w1 + int elapsed\<rparr>))"
        using assms None by (simp add: runJob_def Let_def)
      then show ?thesis unfolding cb using None by simp
    next
      case (Some msg)
      have "final (runJob cfg env job w) =
          final (run_catch cfg env msg (Some (new_run_id env))
            (fst (exec_callback cfg env (new_run_id env) err stdout stderr
              (w1\<lparr>clock := clock w1 + int elapsed\<rparr>)))
            ([Logged INFO] @ vlog cfg @ [Sent (InsertRun (jid job) Running)] @ vlog cfg @
              [Exec (command job) 60000] @
              snd (exec_callback cfg env (new_run_id env) err stdout stderr
                (w1\<lparr>clock := clock w1 + int elapsed\<rparr>))))"
        using assms Some by (simp add: runJob_def Let_def)
      also have "\<dots> = ?wc (if truthy (new_run_id env) \<and> \<not> catch_update_fails env then msg
          else ?out)"
        unfolding cb using unused Some
        by (simp add: run_catch_def update_run_def update_fresh_row)
      finally show ?thesis using Some by simp
    qed
  qed
  show ?thesis using c1 c2 c3 c4 c5 by blast
qed


theorem runJob_records_run_witness:
  "insert_run (insert_fails env_hello) (new_run_id env_hello) (jid job_hello)
      (fresh [job_hello] [] 1000) =
     Some (fresh [job_hello]
       [\<lparr>run_id = JNum 1, job_id = JStr (js ''1''), run_status = Running,
         started_at = Some 1000, finished_at = None, run_output = None\<rparr>] 1000) \<and>
   exec_out env_hello = ExecDone None (js ''hello'' @ [10]) [] 12 \<and>
   \<not> update_fails env_hello \<and>
   final (runJob cfg0 env_hello job_hello (fresh [job_hello] [] 1000)) =
     fresh [job_hello]
       [\<lparr>run_id = JNum 1, job_id = JStr (js ''1''), run_status = Success,
         started_at = Some 1000, finished_at = Some 1012, run_output = Some (js ''hello'')\<rparr>]
       1012 \<and>
   \<not> threw (runJob cfg0 env_hello job_hello (fresh [job_hello] [] 1000)) \<and>
   insert_run (insert_fails env_partial) (new_run_id env_partial) (jid job_partial)
      (fresh [job_partial] [] 1000) =
     Some (fresh [job_partial]
       [\<lparr>run_id = JNum 1, job_id = JStr (js ''2''), run_status = Running,
         started_at = Some 1000, finished_at = None, run_output = None\<rparr>] 1000) \<and>
   exec_out env_partial =
     ExecDone (Some (js ''Command failed: echo partial; exit 1'' @ [10])) (js ''partial'' @ [10]) [] 40 \<and>
   \<not> update_fails env_partial \<and>
   job_runs (fst (exec_callback cfg0 env_partial (JNum 1)
       (Some (js ''Command failed: echo partial; exit 1'' @ [10])) (js ''partial'' @ [10]) []
       (fresh [job_partial]
          [\<lparr>run_id = JNum 1, job_id = JStr (js ''2''), run_status = Running,
            started_at = Some 1000, finished_at = None, run_output = None\<rparr>] 1040))) =
     [\<lparr>run_id = JNum 1, job_id = JStr (js ''2''), run_status = Error,
       started_at = Some 1000, finished_at = Some 1040, run_output = Some (js ''partial'')\<rparr>] \<and>
   map run_status (job_runs (final (runJob cfg0 env_partial job_partial (fresh [job_partial] [] 1000))))
     = [Error] \<and>
   map finished_at (job_runs (final (runJob cfg0 env_partial job_partial (fresh [job_partial] [] 1000))))
     = [Some 1040] \<and>
   \<not> threw (runJob cfg0 env_partial job_partial (fresh [job_partial] [] 1000))"
proof -
  have h1: "insert_run (insert_fails env_hello) (new_run_id env_hello) (jid job_hello)
      (fresh [job_hello] [] 1000) =
     Some (fresh [job_hello]
       [\<lparr>run_id = JNum 1, job_id = JStr (js ''1''), run_status = Running,
         started_at = Some 1000, finished_at = None, run_output = None\<rparr>] 1000)"
    by (simp add: insert_run_def env_hello_def job_hello_def fresh_def)
  have h2: "exec_out env_hello = ExecDone None (js ''hello'' @ [10]) [] 12"
    by (simp add: env_hello_def)
  have t: "trim (js ''hello'' @ [10]) = js ''hello''"
    by (simp add: trim_def js_def is_space_def)
  have u: "\<not> update_fails env_hello" "new_run_id env_hello = JNum 1"
    "jid job_hello = JStr (js ''1'')" "js ''hello'' \<noteq> []"
    by (simp_all add: env_hello_def job_hello_def js_def)
  have a: "final (runJob cfg0 env_hello job_hello (fresh [job_hello] [] 1000)) =
     fresh [job_hello]
       [\<lparr>run_id = JNum 1, job_id = JStr (js ''1''), run_status = Success,
         started_at = Some 1000, finished_at = Some 1012, run_output = Some (js ''hello'')\<rparr>]
       1012 \<and>
     \<not> threw (runJob cfg0 env_hello job_hello (fresh [job_hello] [] 1000))"
    using u runJob_records_run [OF h1 h2, of cfg0]
    by (simp add: t fresh_def)
  have k1: "insert_run (insert_fails env_partial) (new_run_id env_partial) (jid job_partial)
      (fresh [job_partial] [] 1000) =
     Some (fresh [job_partial]
       [\<lparr>run_id = JNum 1, job_id = JStr (js ''2''), run_status = Running,
         started_at = Some 1000, finished_at = None, run_output = None\<rparr>] 1000)"
    by (simp add: insert_run_def env_partial_def job_partial_def fresh_def)
  have k2: "exec_out env_partial =
     ExecDone (Some (js ''Command failed: echo partial; exit 1'' @ [10])) (js ''partial'' @ [10]) [] 40"
    by (simp add: env_partial_def)
  have t2: "trim (js ''partial'' @ [10]) = js ''partial''"
    by (simp add: trim_def js_def is_space_def)
  have v: "\<not> update_fails env_partial" "new_run_id env_partial = JNum 1"
    "jid job_partial = JStr (js ''2'')" "js ''partial'' \<noteq> []"
    by (simp_all add: env_partial_def job_partial_def js_def)
  have b: "job_runs (fst (exec_callback cfg0 env_partial (JNum 1)
       (Some (js ''Command failed: echo partial; exit 1'' @ [10])) (js ''partial'' @ [10]) []
       (fresh [job_partial]
          [\<lparr>run_id = JNum 1, job_id = JStr (js ''2''), run_status = Running,
            started_at = Some 1000, finished_at = None, run_output = None\<rparr>] 1040))) =
     [\<lparr>run_id = JNum 1, job_id = JStr (js ''2''), run_status = Error,
       started_at = Some 1000, finished_at = Some 1040, run_output = Some (js ''partial'')\<rparr>] \<and>
   map run_status (job_runs (final (runJob cfg0 env_partial job_partial (fresh [job_partial] [] 1000))))
     = [Error] \<and>
   map finished_at (job_runs (final (runJob cfg0 env_partial job_partial (fresh [job_partial] [] 1000))))
     = [Some 1040] \<and>
   \<not> threw (runJob cfg0 env_partial job_partial (fresh [job_partial] [] 1000))"
    using v runJob_records_run [OF k1 k2, of cfg0]
    by (simp add: t2 fresh_def env_partial_def)
  show ?thesis using h1 h2 u(1) a k1 k2 v(1) b by (intro conjI) simp_all
qed

text \<open>The path of a clean exit sends one update for the run and returns.\<close>

lemma runJob_clean_exit_events:
  assumes "insert_run (insert_fails env) (new_run_id env) (jid job) w = Some w1"
    and "exec_out env = ExecDone None stdout stderr elapsed"
    and "\<not> update_fails env"
  shows "events (runJob cfg env job w) =
     [Logged INFO] @ vlog cfg @ [Sent (InsertRun (jid job) Running)] @ vlog cfg @
     [Exec (command job) 60000,
      Sent (UpdateRun Success (str_or (trim (stdout @ stderr)) (js ''(no output)''))
              (clock w + int elapsed) (new_run_id env)),
      Logged INFO] @ vlog cfg @ vlog cfg @ vlog cfg"
proof -
  from assms(1) have "clock w1 = clock w"
    by (auto simp: insert_run_def split: if_splits)
  then show ?thesis
    using assms
    by (simp add: runJob_def exec_callback_def update_run_def Let_def str_or_empty)
qed

text \<open>
  C1, evaluated on a command that fails. The job's command prints \<open>partial\<close> and exits with
  code 1 while the store works. \<open>runJob\<close> sends two updates for the one run identifier: the
  callback's, which makes the row terminal (\<open>error\<close>, output \<open>partial\<close>, \<open>finished_at\<close>
  set), and then, the promise being rejected with \<open>err\<close>, the one of the \<open>catch\<close> block,
  which writes the terminal row again: the output becomes the error's message and
  \<open>finished_at\<close> is assigned a second time.
\<close>

theorem runJob_failed_command_finalizes_twice:
  "events (runJob cfg0 env_partial job_partial (fresh [job_partial] [] 1000)) =
     [Logged INFO, Sent (InsertRun (JStr (js ''2'')) Running),
      Exec (js ''echo partial; exit 1'') 60000,
      Sent (UpdateRun Error (js ''partial'') 1040 (JNum 1)), Logged INFO,
      Logged ERROR,
      Sent (UpdateRunNow Error (js ''Command failed: echo partial; exit 1'' @ [10]) (JNum 1))] \<and>
   job_runs (fst (exec_callback cfg0 env_partial (JNum 1)
       (Some (js ''Command failed: echo partial; exit 1'' @ [10])) (js ''partial'' @ [10]) []
       (fresh [job_partial]
          [\<lparr>run_id = JNum 1, job_id = JStr (js ''2''), run_status = Running,
            started_at = Some 1000, finished_at = None, run_output = None\<rparr>] 1040))) =
     [\<lparr>run_id = JNum 1, job_id = JStr (js ''2''), run_status = Error,
       started_at = Some 1000, finished_at = Some 1040, run_output = Some (js ''partial'')\<rparr>] \<and>
   job_runs (final (runJob cfg0 env_partial job_partial (fresh [job_partial] [] 1000))) =
     [\<lparr>run_id = JNum 1, job_id = JStr (js ''2''), run_status = Error,
       started_at = Some 1000, finished_at = Some 1040,
       run_output = Some (js ''Command failed: echo partial; exit 1'' @ [10])\<rparr>]"
  by (simp add: runJob_def exec_callback_def run_catch_def update_run_def insert_run_def
      Let_def str_or_def cfg0_def env_partial_def job_partial_def fresh_def vlog_def
      trim_def js_def is_space_def)

section \<open>Properties of the Retention Sweeper\<close>

lemma cleanup_runs:
  "job_runs (final (cleanupOldRuns cfg env w)) = job_runs w \<or>
   job_runs (final (cleanupOldRuns cfg env w)) = filter (\<lambda>r. \<not> is_old (clock w) r) (job_runs w)"
  by (simp add: cleanupOldRuns_def delete_old_runs_def Let_def)

lemma cleanup_runs_swept:
  "\<not> (VERBOSE cfg \<and> count_before_fails env) \<Longrightarrow> \<not> delete_fails env \<Longrightarrow>
   job_runs (final (cleanupOldRuns cfg env w)) = filter (\<lambda>r. \<not> is_old (clock w) r) (job_runs w)"
  by (simp add: cleanupOldRuns_def delete_old_runs_def Let_def)

lemma filter_not_old:
  "(\<And>r. P r \<Longrightarrow> \<not> is_old now r) \<Longrightarrow> filter P (filter (\<lambda>r. \<not> is_old now r) rs) = filter P rs"
  by (induction rs) auto

text \<open>
  C7. \<open>cleanupOldRuns\<close> never throws. The rows whose \<open>finished_at\<close> is less than 30 days
  before the current time are the same rows, in the same order, before and after. When the
  store executes the \<open>DELETE\<close> (and, under \<open>VERBOSE\<close>, the count before it), no row is
  left whose \<open>finished_at\<close> is more than 30 days before the current time. When a statement
  of the sweep fails, the last thing the sweeper does is log an error.
\<close>

theorem cleanupOldRuns_retention:
  "\<not> threw (cleanupOldRuns cfg env w) \<and>
   filter (\<lambda>r. \<exists>t. finished_at r = Some t \<and> clock w - thirty_days < t)
       (job_runs (final (cleanupOldRuns cfg env w))) =
     filter (\<lambda>r. \<exists>t. finished_at r = Some t \<and> clock w - thirty_days < t) (job_runs w) \<and>
   (\<not> (VERBOSE cfg \<and> count_before_fails env) \<and> \<not> delete_fails env \<longrightarrow>
      (\<forall>r \<in> set (job_runs (final (cleanupOldRuns cfg env w))).
         \<forall>t. finished_at r = Some t \<longrightarrow> \<not> t < clock w - thirty_days)) \<and>
   ((VERBOSE cfg \<and> count_before_fails env) \<or> delete_fails env \<or>
      (VERBOSE cfg \<and> count_after_fails env) \<longrightarrow>
      last (events (cleanupOldRuns cfg env w)) = Logged ERROR)"
proof -
  have a: "\<not> threw (cleanupOldRuns cfg env w)"
    by (simp add: cleanupOldRuns_def Let_def split: option.splits)
  have b: "filter (\<lambda>r. \<exists>t. finished_at r = Some t \<and> clock w - thirty_days < t)
       (job_runs (final (cleanupOldRuns cfg env w))) =
     filter (\<lambda>r. \<exists>t. finished_at r = Some t \<and> clock w - thirty_days < t) (job_runs w)"
  proof -
    have "\<And>r. (\<exists>t. finished_at r = Some t \<and> clock w - thirty_days < t) \<Longrightarrow>
        \<not> is_old (clock w) r"
      by (auto simp: is_old_def)
    from filter_not_old [of "\<lambda>r. \<exists>t. finished_at r = Some t \<and> clock w - thirty_days < t", OF this]
    show ?thesis using cleanup_runs [of cfg env w] by (elim disjE) (simp_all only:)
  qed
  have c: "\<forall>r \<in> set (job_runs (final (cleanupOldRuns cfg env w))).
         \<forall>t. finished_at r = Some t \<longrightarrow> \<not> t < clock w - thirty_days"
    if "\<not> (VERBOSE cfg \<and> count_before_fails env) \<and> \<not> delete_fails env"
    using that cleanup_runs_swept [of cfg env w] by (auto simp: is_old_def)
  have d: "last (events (cleanupOldRuns cfg env w)) = Logged ERROR"
    if "(VERBOSE cfg \<and> count_before_fails env) \<or> delete_fails env \<or>
      (VERBOSE cfg \<and> count_after_fails env)"
    using that by (auto simp: cleanupOldRuns_def delete_old_runs_def Let_def)
  show ?thesis using a b c d by blast
qed

theorem cleanupOldRuns_retention_witness:
  "\<not> (VERBOSE cfg0 \<and> count_before_fails env_sweep) \<and> \<not> delete_fails env_sweep \<and>
   run_old \<in> set (job_runs w_sweep) \<and>
   run_old \<notin> set (job_runs (final (cleanupOldRuns cfg0 env_sweep w_sweep))) \<and>
   run_recent \<in> set (job_runs (final (cleanupOldRuns cfg0 env_sweep w_sweep))) \<and>
   delete_fails env_down \<and>
   last (events (cleanupOldRuns cfg0 env_down w_sweep)) = Logged ERROR \<and>
   \<not> threw (cleanupOldRuns cfg0 env_down w_sweep)"
proof -
  have h: "\<not> (VERBOSE cfg0 \<and> count_before_fails env_sweep) \<and> \<not> delete_fails env_sweep"
    by (simp add: env_sweep_def)
  have d: "delete_fails env_down" by (simp add: env_down_def)
  have o: "finished_at run_old = Some 5" "5 < clock w_sweep - thirty_days"
    "run_old \<in> set (job_runs w_sweep)"
    by (simp_all add: run_old_def w_sweep_def fresh_def thirty_days_def)
  have y: "run_recent \<in> set (filter (\<lambda>r. \<exists>t. finished_at r = Some t \<and> clock w_sweep - thirty_days < t)
      (job_runs w_sweep))"
    by (simp add: run_recent_def w_sweep_def fresh_def thirty_days_def)
  note t1 = cleanupOldRuns_retention [of cfg0 env_sweep w_sweep]
  note t2 = cleanupOldRuns_retention [of cfg0 env_down w_sweep]
  from t1 h o have p1: "run_old \<notin> set (job_runs (final (cleanupOldRuns cfg0 env_sweep w_sweep)))"
    by blast
  from t1 y have "run_recent \<in> set (filter (\<lambda>r. \<exists>t. finished_at r = Some t \<and> clock w_sweep - thirty_days < t)
      (job_runs (final (cleanupOldRuns cfg0 env_sweep w_sweep))))"
    by simp
  then have p2: "run_recent \<in> set (job_runs (final (cleanupOldRuns cfg0 env_sweep w_sweep)))"
    by simp
  from t2 d have p3: "last (events (cleanupOldRuns cfg0 env_down w_sweep)) = Logged ERROR"
    and p4: "\<not> threw (cleanupOldRuns cfg0 env_down w_sweep)"
    by blast+
  show ?thesis using h d o(3) p1 p2 p3 p4 by (intro conjI) simp_all
qed

text \<open>
  C10. A row whose \<open>finished_at\<close> is null never satisfies the deletion predicate, whatever
  the current time, and every such row is still in the table after \<open>cleanupOldRuns\<close>: the
  rows with a null \<open>finished_at\<close> are the same, in the same order, before and after.
\<close>

theorem cleanup_keeps_unfinished:
  "(finished_at r = None \<longrightarrow> \<not> is_old now r) \<and>
   (r \<in> set (job_runs w) \<and> finished_at r = None \<longrightarrow>
      r \<in> set (job_runs (final (cleanupOldRuns cfg env w)))) \<and>
   filter (\<lambda>r. finished_at r = None) (job_runs (final (cleanupOldRuns cfg env w))) =
   filter (\<lambda>r. finished_at r = None) (job_runs w)"
proof -
  have a: "\<And>r now. finished_at r = None \<Longrightarrow> \<not> is_old now r"
    by (simp add: is_old_def)
  have b: "filter (\<lambda>r. finished_at r = None) (job_runs (final (cleanupOldRuns cfg env w))) =
     filter (\<lambda>r. finished_at r = None) (job_runs w)"
    using cleanup_runs [of cfg env w] filter_not_old [of "\<lambda>r. finished_at r = None", OF a]
    by (elim disjE) (simp_all only:)
  have "r \<in> set (job_runs (final (cleanupOldRuns cfg env w)))"
    if "r \<in> set (job_runs w) \<and> finished_at r = None"
  proof -
    from that have "r \<in> set (filter (\<lambda>r. finished_at r = None) (job_runs w))" by simp
    with b have "r \<in> set (filter (\<lambda>r. finished_at r = None)
        (job_runs (final (cleanupOldRuns cfg env w))))" by simp
    then show ?thesis by simp
  qed
  with a b show ?thesis by blast
qed

theorem cleanup_keeps_unfinished_witness:
  "run_stuck \<in> set (job_runs w_sweep) \<and> finished_at run_stuck = None \<and>
   \<not> is_old (clock w_sweep) run_stuck \<and>
   run_stuck \<in> set (job_runs (final (cleanupOldRuns cfg0 env_sweep w_sweep)))"
proof -
  have h: "run_stuck \<in> set (job_runs w_sweep) \<and> finished_at run_stuck = None"
    by (simp add: run_stuck_def w_sweep_def fresh_def)
  show ?thesis
    using h cleanup_keeps_unfinished [of run_stuck "clock w_sweep" w_sweep cfg0 env_sweep]
    by blast
qed

section \<open>Properties of the Task Registry\<close>

text \<open>
  C5, as the code has it. When \<open>scheduleJob\<close> (with \<open>runNow = false\<close> and a valid schedule)
  is called for a job id that is registered, with a task that is live, the registry entry is
  replaced by the handle of a new task and the previous task is not stopped: it stays live,
  and if no other id was registered with it, no entry of the registry leads to it any more.
\<close>

theorem scheduleJob_replaces_without_stop:
  assumes "cron_validate cfg (schedule job)"
    and "scheduledJobs w (jid job) = Some old"
    and "triggers w old = Some j0"
    and "triggers w (next_task w) = None"
  shows "scheduledJobs (final (scheduleJob cfg job None w)) (jid job) = Some (next_task w) \<and>
         triggers (final (scheduleJob cfg job None w)) (next_task w) = Some job \<and>
         next_task w \<noteq> old \<and>
         triggers (final (scheduleJob cfg job None w)) old = Some j0 \<and>
         ((\<forall>k. k \<noteq> jid job \<longrightarrow> scheduledJobs w k \<noteq> Some old) \<longrightarrow>
            (\<forall>k. scheduledJobs (final (scheduleJob cfg job None w)) k \<noteq> Some old))"
  using assms by (auto simp: scheduleJob_def)

theorem scheduleJob_replaces_without_stop_witness:
  "cron_validate cfg0 (schedule job_hello) \<and>
   scheduledJobs w_once (jid job_hello) = Some 0 \<and>
   triggers w_once 0 = Some job_hello \<and>
   triggers w_once (next_task w_once) = None \<and>
   scheduledJobs (final (scheduleJob cfg0 job_hello None w_once)) (jid job_hello) = Some 1 \<and>
   triggers (final (scheduleJob cfg0 job_hello None w_once)) 0 = Some job_hello \<and>
   (\<forall>k. scheduledJobs (final (scheduleJob cfg0 job_hello None w_once)) k \<noteq> Some 0)"
proof -
  have h1: "cron_validate cfg0 (schedule job_hello)" by (simp add: cfg0_def job_hello_def)
  have h2: "scheduledJobs w_once (jid job_hello) = Some 0" by (simp add: w_once_def job_hello_def)
  have h3: "triggers w_once 0 = Some job_hello" by (simp add: w_once_def)
  have h4: "triggers w_once (next_task w_once) = None" by (simp add: w_once_def)
  have h5: "\<forall>k. k \<noteq> jid job_hello \<longrightarrow> scheduledJobs w_once k \<noteq> Some 0"
    by (simp add: w_once_def job_hello_def)
  have n: "next_task w_once = 1" by (simp add: w_once_def)
  show ?thesis
    using h1 h2 h3 h4 h5 scheduleJob_replaces_without_stop [OF h1 h2 h3 h4] unfolding n
    by blast
qed

text \<open>
  C5 as stated fails: after two calls of \<open>scheduleJob\<close> for the same job in a fresh
  process, the task of the first call is still live and the registry holds only the second.
\<close>

theorem scheduleJob_twice_leaves_live_task:
  "triggers (final (scheduleJob cfg0 job_hello None
       (final (scheduleJob cfg0 job_hello None (fresh [job_hello] [] 0))))) 0 = Some job_hello \<and>
   scheduledJobs (final (scheduleJob cfg0 job_hello None
       (final (scheduleJob cfg0 job_hello None (fresh [job_hello] [] 0))))) (jid job_hello) = Some 1 \<and>
   \<not> (\<exists>k. scheduledJobs (final (scheduleJob cfg0 job_hello None
       (final (scheduleJob cfg0 job_hello None (fresh [job_hello] [] 0))))) k = Some 0)"
  by (simp add: scheduleJob_def cfg0_def job_hello_def fresh_def)

section \<open>The invariant of the Task Registry\<close>

lemma registry_ok_iff: "registry_ok cfg w = (reg_for cfg (jobs w) w \<and> live_ok w)"
  by (simp add: registry_ok_def reg_for_def live_ok_def)

lemma cancelJob_fields:
  "jobs (final (cancelJob k w)) = jobs w"
  "scheduledJobs (final (cancelJob k w)) = (scheduledJobs w)(k := None)"
  "next_task (final (cancelJob k w)) = next_task w"
  by (auto simp: cancelJob_def split: option.splits)

lemma cancelJob_handles: "handles_ok w \<Longrightarrow> handles_ok (final (cancelJob k w))"
  by (auto simp: cancelJob_def handles_ok_def split: option.splits)

lemma cancelJob_live: 
  assumes "live_ok w" shows "live_ok (final (cancelJob k w))"
proof (cases "scheduledJobs w k")
  case None
  then show ?thesis using assms by (simp add: cancelJob_def)
next
  case (Some t)
  have lt: "live_tasks w k = {t}" using assms Some by (simp add: live_ok_def)
  have tr: "triggers (final (cancelJob k w)) = (triggers w)(t := None)"
    using Some by (simp add: cancelJob_def)
  have l': "\<And>k'. live_tasks (final (cancelJob k w)) k' = live_tasks w k' - {t}"
    by (auto simp: live_tasks_def tr)
  show ?thesis
    unfolding live_ok_def
  proof
    fix k'
    show "live_tasks (final (cancelJob k w)) k' =
      (case scheduledJobs (final (cancelJob k w)) k' of None \<Rightarrow> {} | Some t \<Rightarrow> {t})"
    proof (cases "k' = k")
      case True
      then show ?thesis by (simp add: l' lt cancelJob_fields)
    next
      case False
      have "t \<in> live_tasks w k" using lt by simp
      then obtain j0 where "triggers w t = Some j0" "jid j0 = k"
        by (auto simp: live_tasks_def)
      then have "t \<notin> live_tasks w k'"
        using False by (auto simp: live_tasks_def)
      then have "live_tasks w k' - {t} = live_tasks w k'" by simp
      then show ?thesis using False assms by (simp add: l' cancelJob_fields live_ok_def)
    qed
  qed
qed

lemma scheduleJob_invalid: "\<not> cron_validate cfg (schedule job) \<Longrightarrow> final (scheduleJob cfg job None w) = w"
  by (simp add: scheduleJob_def)

lemma scheduleJob_fields:
  assumes "cron_validate cfg (schedule job)"
  shows "jobs (final (scheduleJob cfg job None w)) = jobs w"
    "scheduledJobs (final (scheduleJob cfg job None w)) = (scheduledJobs w)(jid job \<mapsto> next_task w)"
    "triggers (final (scheduleJob cfg job None w)) = (triggers w)(next_task w \<mapsto> job)"
    "next_task (final (scheduleJob cfg job None w)) = Suc (next_task w)"
  using assms by (simp_all add: scheduleJob_def)

lemma scheduleJob_jobs: "jobs (final (scheduleJob cfg job None w)) = jobs w"
  by (simp add: scheduleJob_def)

lemma scheduleJob_handles: "handles_ok w \<Longrightarrow> handles_ok (final (scheduleJob cfg job None w))"
  by (auto simp: scheduleJob_def handles_ok_def less_Suc_eq)

lemma scheduleJob_live:
  assumes "live_ok w" "handles_ok w" "scheduledJobs w (jid job) = None"
  shows "live_ok (final (scheduleJob cfg job None w))"
proof (cases "cron_validate cfg (schedule job)")
  case False
  then show ?thesis using assms by (simp add: scheduleJob_invalid)
next
  case True
  note f = scheduleJob_fields [OF True, of w]
  have unused: "triggers w (next_task w) = None"
    using assms(2) by (auto simp: handles_ok_def)
  have l': "\<And>k. live_tasks (final (scheduleJob cfg job None w)) k =
      (if k = jid job then insert (next_task w) (live_tasks w k) else live_tasks w k)"
    using unused by (auto simp: live_tasks_def f)
  have e: "live_tasks w (jid job) = {}"
    using assms(1,3) by (simp add: live_ok_def)
  show ?thesis
    unfolding live_ok_def using assms(1) e by (auto simp: l' f live_ok_def)
qed


lemma reg_for_cong:
  "(\<And>k. (\<exists>j \<in> set rows. jid j = k \<and> status j = Active \<and> cron_validate cfg (schedule j)) =
        (\<exists>j \<in> set rows'. jid j = k \<and> status j = Active \<and> cron_validate cfg (schedule j))) \<Longrightarrow>
   scheduledJobs w' = scheduledJobs w \<Longrightarrow> reg_for cfg rows w \<Longrightarrow> reg_for cfg rows' w'"
  by (simp add: reg_for_def)

lemma map_jid_status:
  "map (jid \<circ> (\<lambda>j. if P j then j\<lparr>status := s\<rparr> else j)) rows = map jid rows"
  by (induction rows) auto

lemma inv_pause:
  assumes "keys_agree cfg" "sched_inv cfg w"
  shows "sched_inv cfg (final (post_pause cfg f g p w))"
proof -
  let ?upd = "\<lambda>j. if jid j = JStr p then j\<lparr>status := Paused\<rparr> else j"
  let ?w1 = "w\<lparr>jobs := map ?upd (jobs w)\<rparr>"
  have ids: "distinct (map jid (jobs ?w1))"
    using assms(2) by (simp add: sched_inv_def map_jid_status)
  have inv1: "live_ok ?w1" "handles_ok ?w1"
    using assms(2) by (auto simp: sched_inv_def live_ok_def handles_ok_def live_tasks_def)
  have reg: "reg_for cfg (jobs ?w1) (final (cancelJob (JStr p) ?w1))"
    unfolding reg_for_def
  proof
    fix k
    show "(scheduledJobs (final (cancelJob (JStr p) ?w1)) k \<noteq> None) =
        (\<exists>j\<in>set (jobs ?w1). jid j = k \<and> status j = Active \<and> cron_validate cfg (schedule j))"
    proof (cases "k = JStr p")
      case True
      then show ?thesis by (auto simp: cancelJob_fields)
    next
      case False
      have "(\<exists>j\<in>set (jobs ?w1). jid j = k \<and> status j = Active \<and> cron_validate cfg (schedule j)) =
            (\<exists>j\<in>set (jobs w). jid j = k \<and> status j = Active \<and> cron_validate cfg (schedule j))"
        using False by auto
      then show ?thesis using False assms(2) by (simp add: cancelJob_fields sched_inv_def reg_for_def)
    qed
  qed
  have "sched_inv cfg (final (cancelJob (JStr p) ?w1))"
    using reg inv1 ids assms(2)
    by (simp add: sched_inv_def cancelJob_fields cancelJob_live cancelJob_handles)
  then show ?thesis
    using assms
    by (auto simp: post_pause_def select_job_def update_job_status_def keys_agree_def Let_def
        split: option.splits)
qed

lemma inv_delete:
  assumes "keys_agree cfg" "sched_inv cfg w"
  shows "sched_inv cfg (final (delete_route cfg f p w))"
proof -
  let ?w1 = "w\<lparr>jobs := filter (\<lambda>j. jid j \<noteq> JStr p) (jobs w)\<rparr>"
  have inv1: "live_ok ?w1" "handles_ok ?w1"
    using assms(2) by (auto simp: sched_inv_def live_ok_def handles_ok_def live_tasks_def)
  have reg: "reg_for cfg (jobs ?w1) (final (cancelJob (JStr p) ?w1))"
    unfolding reg_for_def
  proof
    fix k
    show "(scheduledJobs (final (cancelJob (JStr p) ?w1)) k \<noteq> None) =
        (\<exists>j\<in>set (jobs ?w1). jid j = k \<and> status j = Active \<and> cron_validate cfg (schedule j))"
    proof (cases "k = JStr p")
      case True
      then show ?thesis by (auto simp: cancelJob_fields)
    next
      case False
      have "(\<exists>j\<in>set (jobs ?w1). jid j = k \<and> status j = Active \<and> cron_validate cfg (schedule j)) =
            (\<exists>j\<in>set (jobs w). jid j = k \<and> status j = Active \<and> cron_validate cfg (schedule j))"
        using False by auto
      then show ?thesis using False assms(2) by (simp add: cancelJob_fields sched_inv_def reg_for_def)
    qed
  qed
  have "distinct (map jid (jobs ?w1))"
    using assms(2) by (simp add: sched_inv_def distinct_map_filter)
  then have "sched_inv cfg (final (cancelJob (JStr p) ?w1))"
    using reg inv1
    by (simp add: sched_inv_def cancelJob_fields cancelJob_live cancelJob_handles)
  then show ?thesis
    using assms
    by (auto simp: delete_route_def delete_job_def keys_agree_def Let_def split: option.splits)
qed


lemma jid_unique:
  "distinct (map jid rows) \<Longrightarrow> j \<in> set rows \<Longrightarrow> j' \<in> set rows \<Longrightarrow> jid j = jid j' \<Longrightarrow> j = j'"
  by (auto simp: distinct_map dest: inj_onD)

lemma inv_create:
  assumes "sched_inv cfg w"
  shows "sched_inv cfg (final (post_create cfg f newid nm cmd sch w))"
proof -
  let ?row = "\<lparr>jid = newid, name = nm, command = cmd, schedule = sch, status = Active\<rparr>"
  let ?w1 = "w\<lparr>jobs := jobs w @ [?row]\<rparr>"
  let ?w2 = "final (scheduleJob cfg ?row None ?w1)"
  have goal: "sched_inv cfg ?w2" if new: "newid \<notin> jid ` set (jobs w)" and valid: "cron_validate cfg sch"
  proof -
    have absent: "scheduledJobs w newid = None"
    proof (rule ccontr)
      assume "scheduledJobs w newid \<noteq> None"
      then obtain j where "j \<in> set (jobs w)" "jid j = newid"
        using assms by (auto simp: sched_inv_def reg_for_def)
      then show False using new by auto
    qed
    have inv1: "live_ok ?w1" "handles_ok ?w1"
      using assms by (auto simp: sched_inv_def live_ok_def handles_ok_def live_tasks_def)
    have ids: "distinct (map jid (jobs ?w1))"
      using assms new by (simp add: sched_inv_def)
    have live2: "live_ok ?w2"
      using inv1 absent by (intro scheduleJob_live) simp_all
    have reg: "reg_for cfg (jobs ?w1) ?w2"
      unfolding reg_for_def
    proof
      fix k
      show "(scheduledJobs ?w2 k \<noteq> None) =
        (\<exists>j\<in>set (jobs ?w1). jid j = k \<and> status j = Active \<and> cron_validate cfg (schedule j))"
        using assms valid by (cases "k = newid") (auto simp: scheduleJob_def sched_inv_def reg_for_def)
    qed
    show ?thesis
      using reg live2 ids inv1(2)
      by (simp add: sched_inv_def scheduleJob_jobs scheduleJob_handles)
  qed
  have "final (post_create cfg f newid nm cmd sch w) = w \<or>
      (newid \<notin> jid ` set (jobs w) \<and> cron_validate cfg sch \<and>
       final (post_create cfg f newid nm cmd sch w) = ?w2)"
    by (simp add: post_create_def insert_job_def Let_def)
  then show ?thesis using goal assms by (elim disjE conjE) simp_all
qed

lemma find_SomeD: "find P xs = Some x \<Longrightarrow> x \<in> set xs \<and> P x"
  by (induction xs) (auto split: if_splits)

lemma post_resume_final:
  assumes "\<And>v q. id_matches cfg v q = (v = JStr q)"
  shows "final (post_resume cfg f g p w) = w \<or>
    (\<exists>job. find (\<lambda>j. jid j = JStr p) (jobs w) = Some job \<and> status job = Paused \<and>
       final (post_resume cfg f g p w) =
         final (scheduleJob cfg job None
           (w\<lparr>jobs := map (\<lambda>j. if jid j = JStr p then j\<lparr>status := Active\<rparr> else j) (jobs w)\<rparr>)))"
  by (cases "find (\<lambda>j. jid j = JStr p) (jobs w)")
     (simp_all add: post_resume_def select_job_def update_job_status_def Let_def assms)

lemma rows_after_status:
  "(\<exists>j \<in> set (map (\<lambda>j. if jid j = q then j\<lparr>status := s\<rparr> else j) rows).
       jid j = k \<and> status j = Active \<and> V (schedule j)) =
   (\<exists>j \<in> set rows. jid j = k \<and> (if k = q then s = Active else status j = Active) \<and> V (schedule j))"
  by (induction rows) auto

lemma inv_resume:
  assumes "keys_agree cfg" "sched_inv cfg w"
  shows "sched_inv cfg (final (post_resume cfg f g p w))"
proof -
  have km: "\<And>v q. id_matches cfg v q = (v = JStr q)"
    using assms(1) by (simp add: keys_agree_def)
  let ?upd = "\<lambda>j. if jid j = JStr p then j\<lparr>status := Active\<rparr> else j"
  let ?w1 = "w\<lparr>jobs := map ?upd (jobs w)\<rparr>"
  have goal: "sched_inv cfg (final (scheduleJob cfg job None ?w1))"
    if sel: "find (\<lambda>j. jid j = JStr p) (jobs w) = Some job" and paused: "status job = Paused"
    for job
  proof -
    let ?w2 = "final (scheduleJob cfg job None ?w1)"
    from find_SomeD [OF sel] have mem: "job \<in> set (jobs w)" and idj: "jid job = JStr p"
      by simp_all
    have dist: "distinct (map jid (jobs w))" using assms(2) by (simp add: sched_inv_def)
    have only: "j = job" if "j \<in> set (jobs w)" "jid j = JStr p" for j
      using jid_unique [OF dist that(1) mem] that(2) idj by simp
    have reg0: "\<And>k. (scheduledJobs w k \<noteq> None) =
        (\<exists>j\<in>set (jobs w). jid j = k \<and> status j = Active \<and> cron_validate cfg (schedule j))"
      using assms(2) by (simp add: sched_inv_def reg_for_def)
    have absent: "scheduledJobs w (JStr p) = None"
    proof (rule ccontr)
      assume "scheduledJobs w (JStr p) \<noteq> None"
      then obtain j where j: "j \<in> set (jobs w)" "jid j = JStr p" "status j = Active"
        unfolding reg0 by blast
      from only [OF j(1,2)] j(3) paused show False by simp
    qed
    have live1: "live_ok ?w1"
      using assms(2) by (simp add: sched_inv_def live_ok_def live_tasks_def)
    have hand1: "handles_ok ?w1"
      using assms(2) by (simp add: sched_inv_def handles_ok_def)
    have ids: "distinct (map jid (jobs ?w1))"
      using dist by (simp add: map_jid_status)
    have abs1: "scheduledJobs ?w1 (jid job) = None"
      using absent idj by simp
    have live2: "live_ok ?w2"
      by (rule scheduleJob_live [OF live1 hand1 abs1])
    have same_p: "(\<exists>j\<in>set (jobs w). jid j = JStr p \<and> cron_validate cfg (schedule j)) =
        cron_validate cfg (schedule job)"
      using mem idj only by blast
    have reg: "reg_for cfg (jobs ?w1) ?w2"
      unfolding reg_for_def
    proof
      fix k
      have rhs: "(\<exists>j\<in>set (jobs ?w1). jid j = k \<and> status j = Active \<and> cron_validate cfg (schedule j)) =
          (\<exists>j\<in>set (jobs w). jid j = k \<and> (if k = JStr p then Active = Active else status j = Active) \<and>
              cron_validate cfg (schedule j))"
        using rows_after_status [of "JStr p" Active "jobs w" k "cron_validate cfg"] by simp
      show "(scheduledJobs ?w2 k \<noteq> None) =
        (\<exists>j\<in>set (jobs ?w1). jid j = k \<and> status j = Active \<and> cron_validate cfg (schedule j))"
      proof (cases "k = JStr p")
        case True
        have "(scheduledJobs ?w2 k \<noteq> None) = cron_validate cfg (schedule job)"
          using True absent idj by (simp add: scheduleJob_def)
        then show ?thesis unfolding rhs using True same_p by simp
      next
        case False
        have "scheduledJobs ?w2 k = scheduledJobs w k"
          using False idj by (simp add: scheduleJob_def)
        then show ?thesis unfolding rhs using False reg0 [of k] by simp
      qed
    qed
    have hand2: "handles_ok ?w2" by (rule scheduleJob_handles [OF hand1])
    have ids2: "distinct (map jid (jobs ?w2))"
      using ids by (simp only: scheduleJob_jobs)
    have reg2: "reg_for cfg (jobs ?w2) ?w2"
      using reg by (simp only: scheduleJob_jobs)
    show ?thesis
      unfolding sched_inv_def using reg2 live2 hand2 ids2 by blast
  qed
  from post_resume_final [OF km, of f g p w]
  show ?thesis
  proof (elim disjE exE conjE)
    assume "final (post_resume cfg f g p w) = w"
    then show ?thesis using assms(2) by simp
  next
    fix job
    assume a: "find (\<lambda>j. jid j = JStr p) (jobs w) = Some job" "status job = Paused"
      and b: "final (post_resume cfg f g p w) = final (scheduleJob cfg job None ?w1)"
    show ?thesis unfolding b by (rule goal [OF a])
  qed
qed

lemma load_rows_inv:
  assumes "reg_for cfg seen w" "live_ok w" "handles_ok w" "distinct (map jid (seen @ rows))"
  shows "reg_for cfg (seen @ rows) (fst (load_rows cfg rows (w, evs, l, s))) \<and>
         live_ok (fst (load_rows cfg rows (w, evs, l, s))) \<and>
         handles_ok (fst (load_rows cfg rows (w, evs, l, s))) \<and>
         jobs (fst (load_rows cfg rows (w, evs, l, s))) = jobs w"
  using assms
proof (induction rows arbitrary: w seen evs l s)
  case Nil
  then show ?case by simp
next
  case (Cons job rows)
  have reg0: "\<And>k. (scheduledJobs w k \<noteq> None) =
      (\<exists>j\<in>set seen. jid j = k \<and> status j = Active \<and> cron_validate cfg (schedule j))"
    using Cons.prems(1) by (simp add: reg_for_def)
  have "jid job \<notin> jid ` set seen"
    using Cons.prems(4) by simp
  then have newid: "\<And>j. j \<in> set seen \<Longrightarrow> jid j \<noteq> jid job"
    by (metis image_eqI)
  have dist: "distinct (map jid ((seen @ [job]) @ rows))"
    using Cons.prems(4) by simp
  show ?case
  proof (cases "status job = Paused")
    case True
    have "reg_for cfg (seen @ [job]) w"
      unfolding reg_for_def using reg0 True by auto
    from Cons.IH [OF this Cons.prems(2,3) dist, of "evs @ vlog cfg" l "Suc s"]
    show ?thesis using True by simp
  next
    case False
    then have act: "status job = Active" by (cases "status job") simp_all
    let ?w1 = "final (scheduleJob cfg job None w)"
    have absent: "scheduledJobs w (jid job) = None"
    proof (rule ccontr)
      assume "scheduledJobs w (jid job) \<noteq> None"
      then obtain j where "j \<in> set seen" "jid j = jid job"
        unfolding reg0 by blast
      then show False using newid by blast
    qed
    have live1: "live_ok ?w1"
      by (rule scheduleJob_live [OF Cons.prems(2,3) absent])
    have hand1: "handles_ok ?w1"
      by (rule scheduleJob_handles [OF Cons.prems(3)])
    have reg1: "reg_for cfg (seen @ [job]) ?w1"
      unfolding reg_for_def
    proof
      fix k
      show "(scheduledJobs ?w1 k \<noteq> None) =
          (\<exists>j\<in>set (seen @ [job]). jid j = k \<and> status j = Active \<and> cron_validate cfg (schedule j))"
      proof (cases "k = jid job")
        case True
        have "(scheduledJobs ?w1 k \<noteq> None) = cron_validate cfg (schedule job)"
          using True absent by (simp add: scheduleJob_def)
        moreover have "(\<exists>j\<in>set (seen @ [job]). jid j = k \<and> status j = Active \<and>
            cron_validate cfg (schedule j)) = cron_validate cfg (schedule job)"
          using True act newid by auto
        ultimately show ?thesis by simp
      next
        case False
        have "scheduledJobs ?w1 k = scheduledJobs w k"
          using False by (simp add: scheduleJob_def)
        then show ?thesis using False reg0 [of k] by auto
      qed
    qed
    from Cons.IH [OF reg1 live1 hand1 dist, of "evs @ events (scheduleJob cfg job None w)" "Suc l" s]
    show ?thesis using False by (simp add: scheduleJob_jobs Let_def)
  qed
qed

lemma initScheduler_final:
  "final (initScheduler cfg False w) =
     fst (load_rows cfg (jobs w) (w, [Logged INFO, Sent SelectJobs], 0, 0))"
  by (simp add: initScheduler_def split: prod.splits)

lemma inv_init:
  assumes "distinct (map jid rows)"
  shows "sched_inv cfg (final (initScheduler cfg False (fresh rows runs t)))"
proof -
  have a: "reg_for cfg [] (fresh rows runs t)" by (simp add: reg_for_def fresh_def)
  have b: "live_ok (fresh rows runs t)" by (simp add: live_ok_def live_tasks_def fresh_def)
  have c: "handles_ok (fresh rows runs t)" by (simp add: handles_ok_def fresh_def)
  have d: "distinct (map jid ([] @ rows))" using assms by simp
  have j: "jobs (fresh rows runs t) = rows" by (simp add: fresh_def)
  from load_rows_inv [OF a b c d, of "[Logged INFO, Sent SelectJobs]" 0 0]
  show ?thesis
    unfolding sched_inv_def initScheduler_final j using assms by simp
qed

lemma inv_step:
  assumes "keys_agree cfg" "sched_inv cfg w" "api_op x"
  shows "sched_inv cfg (step cfg x w)"
  using assms by (cases x) (simp_all add: inv_create inv_pause inv_resume inv_delete)

lemma inv_run_ops:
  assumes "keys_agree cfg" "list_all api_op ops" "sched_inv cfg w"
  shows "sched_inv cfg (run_ops cfg ops w)"
  using assms(2,3)
  by (induction ops arbitrary: w) (simp_all add: inv_step [OF assms(1)])

lemma registry_okD1:
  "registry_ok cfg w \<Longrightarrow> (scheduledJobs w k \<noteq> None) =
     (\<exists>j \<in> set (jobs w). jid j = k \<and> status j = Active \<and> cron_validate cfg (schedule j))"
  by (simp add: registry_ok_def)

lemma registry_okD2:
  "registry_ok cfg w \<Longrightarrow> triggers w t = Some j \<Longrightarrow> scheduledJobs w (jid j) = Some t"
proof -
  assume a: "registry_ok cfg w" and b: "triggers w t = Some j"
  from b have "t \<in> live_tasks w (jid j)" by (auto simp: live_tasks_def)
  moreover from a have "live_tasks w (jid j) =
      (case scheduledJobs w (jid j) of None \<Rightarrow> {} | Some t \<Rightarrow> {t})"
    by (simp add: registry_ok_def)
  ultimately show ?thesis by (cases "scheduledJobs w (jid j)") simp_all
qed

lemmas run_defs = initScheduler_def scheduleJob_def cancelJob_def post_pause_def post_create_def
  select_job_def update_job_status_def insert_job_def fresh_def cfg0_def cfg_num_def
  job_hello_def job_paused_def job_num_def vlog_def

lemma init_hello:
  "final (initScheduler cfg0 False (fresh [job_hello] [] 0)) = w_once"
  by (simp add: run_defs w_once_def)

text \<open>
  C4, as the code has it. Suppose the store compares job ids with route parameters as the
  registry compares keys, and job ids are unique. After \<open>initScheduler\<close> has loaded the
  jobs in a fresh process, and after any further sequence of requests to the create, pause,
  resume and delete routes, each handled from start to end and each free to meet a failing
  store, a job id is registered exactly when a job with that id is active with a valid
  schedule, and the live tasks of a job id are the registered one and no other.
\<close>

theorem registry_invariant:
  assumes "keys_agree cfg" and "distinct (map jid rows)" and "list_all api_op ops"
  shows "registry_ok cfg (run_ops cfg ops (final (initScheduler cfg False (fresh rows runs t))))"
  using inv_run_ops [OF assms(1,3) inv_init [OF assms(2)]]
  by (simp add: sched_inv_def registry_ok_iff)

theorem registry_invariant_witness:
  "keys_agree cfg0 \<and> distinct (map jid [job_hello]) \<and> list_all api_op ops0 \<and>
   registry_ok cfg0 (run_ops cfg0 ops0 (final (initScheduler cfg0 False (fresh [job_hello] [] 0))))"
proof -
  have h1: "keys_agree cfg0" by (simp add: keys_agree_def cfg0_def)
  have h2: "distinct (map jid [job_hello])" by simp
  have h3: "list_all api_op ops0" by (simp add: ops0_def)
  show ?thesis using h1 h2 h3 registry_invariant [OF h1 h2 h3] by simp
qed

text \<open>
  C4 as stated fails. \<open>cancelJob\<close> alone leaves an active job without entry, and
  \<open>scheduleJob\<close> alone registers a paused job: neither reads nor writes a job's status.
  A second \<open>initScheduler\<close> leaves two live tasks for one job. Before \<open>initScheduler\<close>
  has run, an active job has no entry whatever the routes then do to other jobs. And when
  the store's ids are numbers, the pause route passes the string of the route parameter to
  \<open>cancelJob\<close>, which finds no such key: the job is paused in the store and stays registered.
\<close>

theorem registry_invariant_fails_for_low_level_calls:
  "\<not> registry_ok cfg0 (run_ops cfg0 [CancelJob (JStr (js ''1''))]
        (final (initScheduler cfg0 False (fresh [job_hello] [] 0)))) \<and>
   \<not> registry_ok cfg0 (run_ops cfg0 [ScheduleJob job_paused None]
        (final (initScheduler cfg0 False (fresh [job_paused] [] 0)))) \<and>
   \<not> registry_ok cfg0 (run_ops cfg0 [InitScheduler False]
        (final (initScheduler cfg0 False (fresh [job_hello] [] 0)))) \<and>
   \<not> registry_ok cfg0 (run_ops cfg0 [Pause False False (js ''3'')] (fresh [job_hello] [] 0)) \<and>
   \<not> registry_ok cfg_num (run_ops cfg_num [Pause False False (js ''1'')]
        (final (initScheduler cfg_num False (fresh [job_num] [] 0))))"
proof (intro conjI notI)
  have e: "run_ops cfg0 [CancelJob (JStr (js ''1''))]
        (final (initScheduler cfg0 False (fresh [job_hello] [] 0))) =
      \<lparr>jobs = [job_hello], job_runs = [], scheduledJobs = Map.empty, triggers = Map.empty,
       next_task = 1, clock = 0\<rparr>"
    unfolding init_hello by (simp add: w_once_def cancelJob_def)
  assume "registry_ok cfg0 (run_ops cfg0 [CancelJob (JStr (js ''1''))]
        (final (initScheduler cfg0 False (fresh [job_hello] [] 0))))"
  from registry_okD1 [OF this [unfolded e], of "JStr (js ''1'')"] show False
    by (simp add: job_hello_def cfg0_def)
next
  have e: "run_ops cfg0 [ScheduleJob job_paused None]
        (final (initScheduler cfg0 False (fresh [job_paused] [] 0))) =
      \<lparr>jobs = [job_paused], job_runs = [], scheduledJobs = [JStr (js ''3'') \<mapsto> 0],
       triggers = [0 \<mapsto> job_paused], next_task = 1, clock = 0\<rparr>"
    by (simp add: run_defs)
  assume "registry_ok cfg0 (run_ops cfg0 [ScheduleJob job_paused None]
        (final (initScheduler cfg0 False (fresh [job_paused] [] 0))))"
  from registry_okD1 [OF this [unfolded e], of "JStr (js ''3'')"] show False
    by (simp add: job_paused_def)
next
  have e: "run_ops cfg0 [InitScheduler False]
        (final (initScheduler cfg0 False (fresh [job_hello] [] 0))) =
      \<lparr>jobs = [job_hello], job_runs = [], scheduledJobs = [JStr (js ''1'') \<mapsto> 1],
       triggers = [0 \<mapsto> job_hello, 1 \<mapsto> job_hello], next_task = 2, clock = 0\<rparr>"
    unfolding init_hello by (simp add: w_once_def run_defs)
  assume "registry_ok cfg0 (run_ops cfg0 [InitScheduler False]
        (final (initScheduler cfg0 False (fresh [job_hello] [] 0))))"
  from registry_okD2 [OF this [unfolded e], of 0 job_hello] show False
    by (simp add: job_hello_def)
next
  have e: "run_ops cfg0 [Pause False False (js ''3'')] (fresh [job_hello] [] 0) =
      fresh [job_hello] [] 0"
    by (simp add: run_defs js_def)
  assume "registry_ok cfg0 (run_ops cfg0 [Pause False False (js ''3'')] (fresh [job_hello] [] 0))"
  from registry_okD1 [OF this [unfolded e], of "JStr (js ''1'')"] show False
    by (simp add: fresh_def job_hello_def cfg0_def)
next
  have e: "run_ops cfg_num [Pause False False (js ''1'')]
        (final (initScheduler cfg_num False (fresh [job_num] [] 0))) =
      \<lparr>jobs = [job_num\<lparr>status := Paused\<rparr>], job_runs = [], scheduledJobs = [JNum 1 \<mapsto> 0],
       triggers = [0 \<mapsto> job_num], next_task = 1, clock = 0\<rparr>"
    by (simp add: run_defs)
  assume "registry_ok cfg_num (run_ops cfg_num [Pause False False (js ''1'')]
        (final (initScheduler cfg_num False (fresh [job_num] [] 0))))"
  from registry_okD1 [OF this [unfolded e], of "JNum 1"] show False
    by (simp add: job_num_def)
qed

end
